theory Spec2Isabelle
  imports Complex_Main "HOL-Library.Word" "HOL-Library.Log_Nat"
begin

section \<open>Machine numbers\<close>

text \<open>
  The converter (\<^verbatim>\<open>ndi-video-converter.h/.cpp\<close>) and the filter (\<^verbatim>\<open>ndi-filter.cpp\<close>) compute
  with fixed-width integers and with IEEE binary floating point. Integers are words:
  \<open>+\<close>, \<open>-\<close> and \<open>*\<close> wrap, \<open><\<close> and \<open>\<le>\<close> compare unsigned, and a signed field is read
  with \<open>sint\<close>. A conversion between integer types of the same or a smaller width keeps
  the low bits (\<open>ucast\<close>).
\<close>

type_synonym u32 = "32 word"
type_synonym i32 = "32 word"
type_synonym u64 = "64 word"
type_synonym i64 = "64 word"

subsection \<open>Binary floating point\<close>

text \<open>
  A finite floating-point value is the rational number it denotes. Every arithmetic
  operation of the source is the exact operation followed by rounding to the nearest
  value with \<open>p\<close> significant bits, ties to the even significand (\<open>p = 24\<close> for
  \<^verbatim>\<open>float\<close>, \<open>p = 53\<close> for \<^verbatim>\<open>double\<close>). The exponent range is not modelled: all
  values the two files compute are quotients and products of 32-bit integers and the
  constant \<open>1e9\<close>, far from overflow and from the subnormal range of either format.
\<close>

definition round_nearest_even :: "rat \<Rightarrow> int" where
  "round_nearest_even x =
     (let f = \<lfloor>x\<rfloor>; d = x - of_int f
      in if d < 1 / 2 then f else if 1 / 2 < d then f + 1 else if even f then f else f + 1)"

text \<open>For \<open>x > 0\<close>, the exponent \<open>e\<close> with \<open>2\<^sup>e \<le> x < 2\<^sup>e\<^sup>+\<^sup>1\<close>.\<close>

definition binary_exponent :: "rat \<Rightarrow> int" where
  "binary_exponent x = (if 1 \<le> x then bitlen \<lfloor>x\<rfloor> - 1 else - bitlen (\<lceil>1 / x\<rceil> - 1))"

definition fl_round :: "nat \<Rightarrow> rat \<Rightarrow> rat" where
  "fl_round p x =
     (if x = 0 then 0
      else let u = 2 powi (binary_exponent \<bar>x\<bar> - int p + 1)
           in sgn x * of_int (round_nearest_even (\<bar>x\<bar> / u)) * u)"

text \<open>A C++ conversion from floating point to an integer type drops the fraction.\<close>

definition trunc_toward_zero :: "rat \<Rightarrow> int" where
  "trunc_toward_zero x = (if 0 \<le> x then \<lfloor>x\<rfloor> else \<lceil>x\<rceil>)"

text \<open>
  \<^verbatim>\<open>double\<close>: the conversion of a \<^verbatim>\<open>uint32_t\<close>, product, quotient, and the cast
  \<^verbatim>\<open>(int64_t)\<close>. The cast is undefined in C++ when the truncated value does not fit; the
  model then keeps the low 64 bits.
\<close>

definition double_of_u32 :: "u32 \<Rightarrow> rat" where
  "double_of_u32 w = fl_round 53 (of_nat (unat w))"

definition double_mul :: "rat \<Rightarrow> rat \<Rightarrow> rat" where
  "double_mul x y = fl_round 53 (x * y)"

definition double_div :: "rat \<Rightarrow> rat \<Rightarrow> rat" where
  "double_div x y = fl_round 53 (x / y)"

definition int64_of_double :: "rat \<Rightarrow> i64" where
  "int64_of_double x = word_of_int (trunc_toward_zero x)"

text \<open>
  \<^verbatim>\<open>float\<close>: the conversions \<^verbatim>\<open>(float)\<close> of a \<^verbatim>\<open>uint32_t\<close> and of an \<^verbatim>\<open>int32_t\<close>,
  product, quotient, and the casts \<^verbatim>\<open>(int32_t)\<close> and \<^verbatim>\<open>(uint32_t)\<close>. C++ leaves a cast
  undefined when the truncated value does not fit the target type. The model then gives
  what the compiled conversion gives: \<^verbatim>\<open>INT32_MIN\<close> for \<^verbatim>\<open>(int32_t)\<close>, and the low 32
  bits for \<^verbatim>\<open>(uint32_t)\<close>.
\<close>

definition float_of_u32 :: "u32 \<Rightarrow> rat" where
  "float_of_u32 w = fl_round 24 (of_nat (unat w))"

definition float_of_i32 :: "i32 \<Rightarrow> rat" where
  "float_of_i32 w = fl_round 24 (of_int (sint w))"

definition float_mul :: "rat \<Rightarrow> rat \<Rightarrow> rat" where
  "float_mul x y = fl_round 24 (x * y)"

definition float_div :: "rat \<Rightarrow> rat \<Rightarrow> rat" where
  "float_div x y = fl_round 24 (x / y)"

definition int32_of_float :: "rat \<Rightarrow> i32" where
  "int32_of_float x =
     (let k = trunc_toward_zero x
      in if - (2 ^ 31) \<le> k \<and> k < 2 ^ 31 then word_of_int k else word_of_int (- (2 ^ 31)))"

definition uint32_of_float :: "rat \<Rightarrow> u32" where
  "uint32_of_float x = word_of_int (trunc_toward_zero x)"

section \<open>The converter state (\<^verbatim>\<open>ndi-video-converter.h\<close>)\<close>

text \<open>
  The three enums are unscoped C enums filled by a cast from the settings' integers, so
  a field can hold any \<^verbatim>\<open>int\<close>; the \<^verbatim>\<open>default:\<close> branches of the preset tables handle
  the values outside the enum. They are modelled as 32-bit values with named constants.
\<close>

type_synonym ndi_resolution_mode = "32 word"

definition NDI_RESOLUTION_AUTO :: ndi_resolution_mode where "NDI_RESOLUTION_AUTO = 0"
definition NDI_RESOLUTION_720P :: ndi_resolution_mode where "NDI_RESOLUTION_720P = 1"
definition NDI_RESOLUTION_1080P :: ndi_resolution_mode where "NDI_RESOLUTION_1080P = 2"
definition NDI_RESOLUTION_1440P :: ndi_resolution_mode where "NDI_RESOLUTION_1440P = 3"
definition NDI_RESOLUTION_4K :: ndi_resolution_mode where "NDI_RESOLUTION_4K = 4"
definition NDI_RESOLUTION_CUSTOM :: ndi_resolution_mode where "NDI_RESOLUTION_CUSTOM = 5"

type_synonym ndi_framerate_mode = "32 word"

definition NDI_FRAMERATE_AUTO :: ndi_framerate_mode where "NDI_FRAMERATE_AUTO = 0"
definition NDI_FRAMERATE_5 :: ndi_framerate_mode where "NDI_FRAMERATE_5 = 1"
definition NDI_FRAMERATE_10 :: ndi_framerate_mode where "NDI_FRAMERATE_10 = 2"
definition NDI_FRAMERATE_15 :: ndi_framerate_mode where "NDI_FRAMERATE_15 = 3"
definition NDI_FRAMERATE_24 :: ndi_framerate_mode where "NDI_FRAMERATE_24 = 4"
definition NDI_FRAMERATE_25 :: ndi_framerate_mode where "NDI_FRAMERATE_25 = 5"
definition NDI_FRAMERATE_30 :: ndi_framerate_mode where "NDI_FRAMERATE_30 = 6"
definition NDI_FRAMERATE_2997 :: ndi_framerate_mode where "NDI_FRAMERATE_2997 = 7"
definition NDI_FRAMERATE_50 :: ndi_framerate_mode where "NDI_FRAMERATE_50 = 8"
definition NDI_FRAMERATE_60 :: ndi_framerate_mode where "NDI_FRAMERATE_60 = 9"
definition NDI_FRAMERATE_5994 :: ndi_framerate_mode where "NDI_FRAMERATE_5994 = 10"
definition NDI_FRAMERATE_CUSTOM :: ndi_framerate_mode where "NDI_FRAMERATE_CUSTOM = 11"

type_synonym ndi_scale_type = "32 word"

definition NDI_SCALE_FAST_BILINEAR :: ndi_scale_type where "NDI_SCALE_FAST_BILINEAR = 0"
definition NDI_SCALE_BILINEAR :: ndi_scale_type where "NDI_SCALE_BILINEAR = 1"
definition NDI_SCALE_BICUBIC :: ndi_scale_type where "NDI_SCALE_BICUBIC = 2"

text \<open>
  The host library's types. \<^verbatim>\<open>enum video_format\<close> and \<^verbatim>\<open>enum video_scale_type\<close> are
  declared in the host's headers; the converter only names \<^verbatim>\<open>VIDEO_FORMAT_BGRA\<close> and the
  three scale types. A \<^verbatim>\<open>video_scaler_t\<close> is opaque to the converter; the model keeps
  what \<^verbatim>\<open>video_scaler_create\<close> was given, which is all that determines what the handle
  does.
\<close>

datatype video_format = VIDEO_FORMAT_BGRA | VIDEO_FORMAT_OTHER nat

datatype video_scale_type = VIDEO_SCALE_FAST_BILINEAR | VIDEO_SCALE_BILINEAR | VIDEO_SCALE_BICUBIC

record video_scale_info =
  format :: video_format
  width :: u32
  height :: u32

record video_scaler =
  dst :: video_scale_info
  src :: video_scale_info
  scale_algorithm :: video_scale_type

text \<open>
  \<^verbatim>\<open>ndi_video_converter_t\<close>. A pointer is \<open>None\<close> when null; \<open>scaled_buffer\<close> holds the
  address \<^verbatim>\<open>bmalloc\<close> returned. The four \<^verbatim>\<open>cached_crop_*\<close> fields and \<^verbatim>\<open>crop_cache_valid\<close>
  are left out: no function of the two files reads or writes them.
\<close>

record ndi_video_converter =
  enable_custom_resolution :: bool
  resolution_mode :: ndi_resolution_mode
  custom_width :: u32
  custom_height :: u32
  target_width :: u32
  target_height :: u32
  scale_type :: ndi_scale_type
  enable_crop :: bool
  crop_left :: i32
  crop_top :: i32
  crop_width :: u32
  crop_height :: u32
  enable_custom_framerate :: bool
  framerate_mode :: ndi_framerate_mode
  custom_fps_num :: u32
  custom_fps_den :: u32
  target_fps_num :: u32
  target_fps_den :: u32
  scaler :: "video_scaler option"
  scaled_buffer :: "nat option"
  scaled_buffer_size :: u64
  accumulator_ns :: i64
  target_frame_interval_ns :: i64
  last_frame_timestamp :: u64
  source_width :: u32
  source_height :: u32
  source_format :: video_format

text \<open>
  The settings snapshot \<^verbatim>\<open>obs_data_t\<close>, one field per \<^verbatim>\<open>PROP_*\<close> key the converter
  reads: \<^verbatim>\<open>obs_data_get_bool\<close> gives a \<^verbatim>\<open>bool\<close>, \<^verbatim>\<open>obs_data_get_int\<close> a \<^verbatim>\<open>long long\<close>.
\<close>

record obs_data =
  prop_enable_custom_res :: bool
  prop_resolution_mode :: i64
  prop_custom_width :: i64
  prop_custom_height :: i64
  prop_scale_type :: i64
  prop_enable_crop :: bool
  prop_crop_left :: i64
  prop_crop_top :: i64
  prop_crop_width :: i64
  prop_crop_height :: i64
  prop_enable_custom_fps :: bool
  prop_framerate_mode :: i64
  prop_custom_fps_num :: i64
  prop_custom_fps_den :: i64

section \<open>The converter (\<^verbatim>\<open>ndi-video-converter.cpp\<close>)\<close>

text \<open>\<^verbatim>\<open>ndi_converter_init\<close>: everything zero, then the defaults.\<close>

definition ndi_converter_init :: ndi_video_converter where
  "ndi_converter_init =
     \<lparr> enable_custom_resolution = False, resolution_mode = NDI_RESOLUTION_AUTO,
       custom_width = 1920, custom_height = 1080, target_width = 0, target_height = 0,
       scale_type = NDI_SCALE_BICUBIC,
       enable_crop = False, crop_left = 0, crop_top = 0, crop_width = 0, crop_height = 0,
       enable_custom_framerate = False, framerate_mode = NDI_FRAMERATE_AUTO,
       custom_fps_num = 30, custom_fps_den = 1, target_fps_num = 0, target_fps_den = 0,
       scaler = None, scaled_buffer = None, scaled_buffer_size = 0,
       accumulator_ns = 0, target_frame_interval_ns = 0, last_frame_timestamp = 0,
       source_width = 0, source_height = 0, source_format = VIDEO_FORMAT_OTHER 0 \<rparr>"

text \<open>The preset tables, as pairs instead of two out-parameters.\<close>

definition ndi_converter_get_preset_resolution :: "ndi_resolution_mode \<Rightarrow> u32 \<times> u32" where
  "ndi_converter_get_preset_resolution mode =
     (if mode = NDI_RESOLUTION_720P then (1280, 720)
      else if mode = NDI_RESOLUTION_1080P then (1920, 1080)
      else if mode = NDI_RESOLUTION_1440P then (2560, 1440)
      else if mode = NDI_RESOLUTION_4K then (3840, 2160)
      else (0, 0))"

definition ndi_converter_get_preset_framerate :: "ndi_framerate_mode \<Rightarrow> u32 \<times> u32" where
  "ndi_converter_get_preset_framerate mode =
     (if mode = NDI_FRAMERATE_5 then (5, 1)
      else if mode = NDI_FRAMERATE_10 then (10, 1)
      else if mode = NDI_FRAMERATE_15 then (15, 1)
      else if mode = NDI_FRAMERATE_24 then (24, 1)
      else if mode = NDI_FRAMERATE_25 then (25, 1)
      else if mode = NDI_FRAMERATE_30 then (30, 1)
      else if mode = NDI_FRAMERATE_2997 then (30000, 1001)
      else if mode = NDI_FRAMERATE_50 then (50, 1)
      else if mode = NDI_FRAMERATE_60 then (60, 1)
      else if mode = NDI_FRAMERATE_5994 then (60000, 1001)
      else (0, 0))"

text \<open>
  \<^verbatim>\<open>ndi_converter_update\<close>, in its three blocks. Lines 131--159: the resolution settings,
  the clamp of the custom size, the target size.
\<close>

definition update_resolution :: "ndi_video_converter \<Rightarrow> obs_data \<Rightarrow> ndi_video_converter" where
  "update_resolution c s =
     (let w0 = (ucast (prop_custom_width s) :: u32);
          h0 = (ucast (prop_custom_height s) :: u32);
          w1 = (if w0 < 128 then 128 else w0);
          w2 = (if 7680 < w1 then 7680 else w1);
          h1 = (if h0 < 72 then 72 else h0);
          h2 = (if 4320 < h1 then 4320 else h1);
          mode = (ucast (prop_resolution_mode s) :: ndi_resolution_mode);
          target = (if prop_enable_custom_res s
                    then if mode = NDI_RESOLUTION_CUSTOM then (w2, h2)
                         else ndi_converter_get_preset_resolution mode
                    else (0, 0))
      in c\<lparr> enable_custom_resolution := prop_enable_custom_res s,
            resolution_mode := mode,
            custom_width := w2,
            custom_height := h2,
            scale_type := ucast (prop_scale_type s),
            target_width := fst target,
            target_height := snd target \<rparr>)"

text \<open>Lines 162--173: the crop settings; a negative left or top becomes 0.\<close>

definition update_crop :: "ndi_video_converter \<Rightarrow> obs_data \<Rightarrow> ndi_video_converter" where
  "update_crop c s =
     (let l0 = (ucast (prop_crop_left s) :: i32);
          t0 = (ucast (prop_crop_top s) :: i32)
      in c\<lparr> enable_crop := prop_enable_crop s,
            crop_left := (if sint l0 < 0 then 0 else l0),
            crop_top := (if sint t0 < 0 then 0 else t0),
            crop_width := ucast (prop_crop_width s),
            crop_height := ucast (prop_crop_height s) \<rparr>)"

text \<open>
  Lines 199--200: \<^verbatim>\<open>(int64_t)((1000000000.0 * target_fps_den) / target_fps_num)\<close>, computed
  in \<^verbatim>\<open>double\<close>.
\<close>

definition frame_interval_ns :: "u32 \<Rightarrow> u32 \<Rightarrow> i64" where
  "frame_interval_ns den num =
     int64_of_double (double_div (double_mul 1000000000 (double_of_u32 den)) (double_of_u32 num))"

text \<open>
  Lines 176--212: the frame-rate settings. The accumulator and the last timestamp are
  reset inside the branch for an enabled frame rate only.
\<close>

definition update_framerate :: "ndi_video_converter \<Rightarrow> obs_data \<Rightarrow> ndi_video_converter" where
  "update_framerate c s =
     (let n0 = (ucast (prop_custom_fps_num s) :: u32);
          d0 = (ucast (prop_custom_fps_den s) :: u32);
          n1 = (if n0 < 1 then 1 else n0);
          d1 = (if d0 < 1 then 1 else d0);
          mode = (ucast (prop_framerate_mode s) :: ndi_framerate_mode);
          c1 = c\<lparr> enable_custom_framerate := prop_enable_custom_fps s,
                   framerate_mode := mode,
                   custom_fps_num := n1,
                   custom_fps_den := d1 \<rparr>
      in if prop_enable_custom_fps s
         then let target = (if mode = NDI_FRAMERATE_CUSTOM then (n1, d1)
                            else ndi_converter_get_preset_framerate mode);
                  num = fst target;
                  den = snd target
              in c1\<lparr> target_fps_num := num,
                      target_fps_den := den,
                      target_frame_interval_ns :=
                        (if 0 < num \<and> 0 < den then frame_interval_ns den num else 0),
                      accumulator_ns := 0,
                      last_frame_timestamp := 0 \<rparr>
         else c1\<lparr> target_fps_num := 0,
                   target_fps_den := 0,
                   target_frame_interval_ns := 0 \<rparr>)"

definition ndi_converter_update :: "ndi_video_converter \<Rightarrow> obs_data \<Rightarrow> ndi_video_converter" where
  "ndi_converter_update c s = update_framerate (update_crop (update_resolution c s) s) s"

text \<open>
  \<^verbatim>\<open>ndi_converter_update_scaler\<close>. Two results come from the host library and are
  parameters: whether \<^verbatim>\<open>video_scaler_create\<close> succeeds, and the address \<^verbatim>\<open>bmalloc\<close>
  returns. The required size is computed in \<^verbatim>\<open>uint32_t\<close> and then widened to \<^verbatim>\<open>size_t\<close>.
\<close>

definition obs_scale_type_of :: "ndi_scale_type \<Rightarrow> video_scale_type" where
  "obs_scale_type_of t =
     (if t = NDI_SCALE_FAST_BILINEAR then VIDEO_SCALE_FAST_BILINEAR
      else if t = NDI_SCALE_BILINEAR then VIDEO_SCALE_BILINEAR
      else VIDEO_SCALE_BICUBIC)"

definition ndi_converter_update_scaler ::
  "bool \<Rightarrow> nat \<Rightarrow> ndi_video_converter \<Rightarrow> u32 \<Rightarrow> u32 \<Rightarrow> video_format \<Rightarrow> bool \<times> ndi_video_converter" where
  "ndi_converter_update_scaler create_succeeds bmalloc_result c source_w source_h source_fmt =
     (if \<not> enable_custom_resolution c \<or> target_width c = 0 \<or> target_height c = 0
      then (False, c)
      else let need_recreate =
                 (scaler c = None \<or> source_width c \<noteq> source_w \<or>
                  source_height c \<noteq> source_h \<or> source_format c \<noteq> source_fmt)
           in if \<not> need_recreate then (True, c)
              else let c1 = c\<lparr> scaler := None \<rparr>;
                       src_info = \<lparr> format = source_fmt, width = source_w, height = source_h \<rparr>;
                       dst_info = \<lparr> format = VIDEO_FORMAT_BGRA, width = target_width c1,
                                    height = target_height c1 \<rparr>
                   in if \<not> create_succeeds then (False, c1\<lparr> scaler := None \<rparr>)
                      else let c2 = c1\<lparr> scaler := Some \<lparr> dst = dst_info, src = src_info,
                                            scale_algorithm = obs_scale_type_of (scale_type c1) \<rparr>,
                                          source_width := source_w,
                                          source_height := source_h,
                                          source_format := source_fmt \<rparr>;
                               required_size =
                                 (ucast (target_width c2 * target_height c2 * 4) :: u64)
                           in if scaled_buffer_size c2 < required_size
                              then (True, c2\<lparr> scaled_buffer := Some bmalloc_result,
                                              scaled_buffer_size := required_size \<rparr>)
                              else (True, c2))"

text \<open>
  \<^verbatim>\<open>ndi_converter_should_send_frame\<close>. The \<^verbatim>\<open>while\<close> loop of lines 360--363 carries the
  accumulator and the \<^verbatim>\<open>int\<close> count; a run that never leaves the loop is \<open>None\<close>. The
  result is the returned \<^verbatim>\<open>bool\<close>, the value written to \<^verbatim>\<open>*frames_to_send\<close>, and the
  converter. Signed overflow (of the accumulator or of the count) is undefined in C++;
  the model wraps.
\<close>

partial_function (option) send_count_loop :: "i64 \<Rightarrow> i64 \<Rightarrow> i32 \<Rightarrow> (i32 \<times> i64) option" where
  "send_count_loop acc interval count =
     (if sint interval \<le> sint acc then send_count_loop (acc - interval) interval (count + 1)
      else Some (count, acc))"

definition ndi_converter_should_send_frame ::
  "ndi_video_converter \<Rightarrow> u64 \<Rightarrow> (bool \<times> i32 \<times> ndi_video_converter) option" where
  "ndi_converter_should_send_frame c frame_timestamp =
     (if \<not> enable_custom_framerate c \<or> target_frame_interval_ns c = 0
      then Some (True, 0, c)
      else let delta_ns = (if 0 < last_frame_timestamp c
                           then frame_timestamp - last_frame_timestamp c else 0);
               c1 = c\<lparr> accumulator_ns := accumulator_ns c + delta_ns,
                        last_frame_timestamp := frame_timestamp \<rparr>
           in case send_count_loop (accumulator_ns c1) (target_frame_interval_ns c1) 0 of
                None \<Rightarrow> None
              | Some (count, acc) \<Rightarrow> Some (0 < sint count, count, c1\<lparr> accumulator_ns := acc \<rparr>))"

section \<open>The filter's frame callback (\<^verbatim>\<open>ndi-filter.cpp\<close>)\<close>

text \<open>
  Of \<^verbatim>\<open>ndi_filter_t\<close> the callback reads the known (rendered) size, the host's frame
  rate and the converter. Of the frame it reads \<^verbatim>\<open>data[0]\<close>, \<^verbatim>\<open>linesize[0]\<close> and the
  timestamp; the frame pointer itself is taken to be non-null (line 240 dereferences it
  before any test). A sent frame is the \<^verbatim>\<open>NDIlib_video_frame_v2_t\<close> handed to the sender.
\<close>

record video_data =
  data0 :: "nat option"
  linesize0 :: u32
  timestamp :: u64

record ndi_filter =
  known_width :: u32
  known_height :: u32
  ovi_fps_num :: u32
  ovi_fps_den :: u32
  converter :: ndi_video_converter

record NDIlib_video_frame_v2 =
  xres :: i32
  yres :: i32
  frame_rate_N :: i32
  frame_rate_D :: i32
  p_data :: "nat option"
  line_stride_in_bytes :: i32

text \<open>
  Lines 245--275: the crop of the settings, scaled in \<^verbatim>\<open>float\<close> from source to rendered
  coordinates when a custom resolution is active and the source size is known.
\<close>

definition normalize_crop :: "ndi_filter \<Rightarrow> u32 \<Rightarrow> u32 \<Rightarrow> i32 \<times> i32 \<times> u32 \<times> u32" where
  "normalize_crop f source_w source_h =
     (let c = converter f
      in if (enable_custom_resolution c \<and> 0 < target_width c \<and> 0 < target_height c) \<and>
            (0 < source_w \<and> 0 < source_h)
         then let scale_x = float_div (float_of_u32 (known_width f)) (float_of_u32 source_w);
                  scale_y = float_div (float_of_u32 (known_height f)) (float_of_u32 source_h)
              in (int32_of_float (float_mul (float_of_i32 (crop_left c)) scale_x),
                  int32_of_float (float_mul (float_of_i32 (crop_top c)) scale_y),
                  uint32_of_float (float_mul (float_of_u32 (crop_width c)) scale_x),
                  uint32_of_float (float_mul (float_of_u32 (crop_height c)) scale_y))
         else (crop_left c, crop_top c, crop_width c, crop_height c))"

text \<open>
  Lines 277--297: 0 means the full dimension, then the clamps. The sums
  \<^verbatim>\<open>crop_left + crop_width\<close> and \<^verbatim>\<open>crop_top + crop_height\<close> are \<^verbatim>\<open>uint32_t\<close> sums.
\<close>

fun clamp_crop :: "u32 \<Rightarrow> u32 \<Rightarrow> i32 \<times> i32 \<times> u32 \<times> u32 \<Rightarrow> i32 \<times> i32 \<times> u32 \<times> u32" where
  "clamp_crop kw kh (l0, t0, w0, h0) =
     (let w1 = (if w0 = 0 then kw else w0);
          h1 = (if h0 = 0 then kh else h0);
          l1 = (if sint l0 < 0 then 0 else l0);
          t1 = (if sint t0 < 0 then 0 else t0);
          l2 = (if kw \<le> l1 then kw - 1 else l1);
          t2 = (if kh \<le> t1 then kh - 1 else t1);
          w2 = (if kw < l2 + w1 then kw - l2 else w1);
          h2 = (if kh < t2 + h1 then kh - t2 else h1)
      in (l2, t2, w2, h2))"

definition crop_rect :: "ndi_filter \<Rightarrow> u32 \<Rightarrow> u32 \<Rightarrow> i32 \<times> i32 \<times> u32 \<times> u32" where
  "crop_rect f source_w source_h =
     clamp_crop (known_width f) (known_height f) (normalize_crop f source_w source_h)"

text \<open>
  Lines 238--311: the region handed to the sender, as (width, height, data pointer).
\<close>

definition final_region :: "ndi_filter \<Rightarrow> video_data \<Rightarrow> u32 \<Rightarrow> u32 \<Rightarrow> u32 \<times> u32 \<times> nat option" where
  "final_region f frame source_w source_h =
     (case data0 frame of
        None \<Rightarrow> (known_width f, known_height f, None)
      | Some base \<Rightarrow>
          if enable_crop (converter f)
          then (case crop_rect f source_w source_h of
                  (l, t, w, h) \<Rightarrow>
                    if (0 < w \<and> 0 < h) \<and>
                       (0 < sint l \<or> 0 < sint t \<or> w < known_width f \<or> h < known_height f)
                    then (w, h, Some (nat (int base + uint (t * linesize0 frame) + sint (l * 4))))
                    else (known_width f, known_height f, Some base))
          else (known_width f, known_height f, Some base))"

text \<open>
  \<^verbatim>\<open>ndi_filter_raw_video\<close>: the frames sent for one incoming frame, and the filter with
  its converter updated. The source size comes from the host
  (\<^verbatim>\<open>obs_source_get_width/height\<close>) and is a parameter.
\<close>

definition ndi_filter_raw_video ::
  "ndi_filter \<Rightarrow> video_data \<Rightarrow> u32 \<Rightarrow> u32 \<Rightarrow> (NDIlib_video_frame_v2 list \<times> ndi_filter) option" where
  "ndi_filter_raw_video f frame source_w source_h =
     (case (if enable_custom_framerate (converter f)
            then map_option (\<lambda>(should_send, n, c). (should_send \<and> n \<noteq> 0, n, c))
                   (ndi_converter_should_send_frame (converter f) (timestamp frame))
            else Some (True, 1, converter f)) of
        None \<Rightarrow> None
      | Some (go_on, frames_to_send, c) \<Rightarrow>
          let f1 = f\<lparr> converter := c \<rparr>
          in if \<not> go_on then Some ([], f1)
             else let custom = (enable_custom_framerate c \<and> 0 < target_fps_num c \<and>
                                0 < target_fps_den c);
                      ndi_fps_num = (if custom then target_fps_num c else ovi_fps_num f1);
                      ndi_fps_den = (if custom then target_fps_den c else ovi_fps_den f1);
                      video_frame =
                        (case final_region f1 frame source_w source_h of
                           (final_width, final_height, final_data) \<Rightarrow>
                             (case data0 frame of
                                None \<Rightarrow> \<lparr> xres = 0, yres = 0, frame_rate_N = 0, frame_rate_D = 0,
                                          p_data = None, line_stride_in_bytes = 0 \<rparr>
                              | Some base \<Rightarrow> \<lparr> xres = final_width, yres = final_height,
                                               frame_rate_N = ndi_fps_num,
                                               frame_rate_D = ndi_fps_den,
                                               p_data = final_data,
                                               line_stride_in_bytes = linesize0 frame \<rparr>))
                  in Some (replicate (nat (sint frames_to_send)) video_frame, f1))"

section \<open>Streams of frames\<close>

text \<open>
  A stream of frames: \<^verbatim>\<open>ndi_converter_should_send_frame\<close> called once per timestamp, in
  order, on the converter the previous call left; the counts written to
  \<^verbatim>\<open>*frames_to_send\<close>, and their sum.
\<close>

fun should_send_frames ::
  "ndi_video_converter \<Rightarrow> u64 list \<Rightarrow> (i32 list \<times> ndi_video_converter) option" where
  "should_send_frames c [] = Some ([], c)"
| "should_send_frames c (t # ts) =
     (case ndi_converter_should_send_frame c t of
        None \<Rightarrow> None
      | Some (should_send, n, c1) \<Rightarrow>
          (case should_send_frames c1 ts of
             None \<Rightarrow> None
           | Some (ns, c2) \<Rightarrow> Some (n # ns, c2)))"

definition total_frames_to_send :: "ndi_video_converter \<Rightarrow> u64 list \<Rightarrow> int option" where
  "total_frames_to_send c ts =
     map_option (\<lambda>(ns, c'). sum_list (map sint ns)) (should_send_frames c ts)"

text \<open>\<open>n\<close> timestamps from \<open>t\<close> on, \<open>d\<close> nanoseconds apart.\<close>

fun frame_times :: "u64 \<Rightarrow> u64 \<Rightarrow> nat \<Rightarrow> u64 list" where
  "frame_times t d 0 = []"
| "frame_times t d (Suc n) = t # frame_times (t + d) d n"

section \<open>Concrete inputs\<close>

text \<open>
  \<^verbatim>\<open>ndi_filter_getdefaults\<close> (\<^verbatim>\<open>ndi-filter.cpp\<close>, lines 168--195): the settings of a new
  filter.
\<close>

definition ndi_filter_getdefaults :: obs_data where
  "ndi_filter_getdefaults =
     \<lparr> prop_enable_custom_res = False, prop_resolution_mode = 2,
       prop_custom_width = 1920, prop_custom_height = 1080, prop_scale_type = 2,
       prop_enable_crop = False, prop_crop_left = 0, prop_crop_top = 0,
       prop_crop_width = 0, prop_crop_height = 0,
       prop_enable_custom_fps = False, prop_framerate_mode = 6,
       prop_custom_fps_num = 30, prop_custom_fps_den = 1 \<rparr>"

text \<open>The defaults with the frame rate enabled at the 29.97 fps preset (30000/1001).\<close>

definition ntsc_settings :: obs_data where
  "ntsc_settings =
     ndi_filter_getdefaults\<lparr> prop_enable_custom_fps := True, prop_framerate_mode := 7 \<rparr>"

definition ntsc_converter :: ndi_video_converter where
  "ntsc_converter = ndi_converter_update ndi_converter_init ntsc_settings"

text \<open>
  Settings with every clamped number out of range: a custom size of 100000x10, a custom
  frame rate of 0/0, and a crop left and top of -5 and -7.
\<close>

definition out_of_range_settings :: obs_data where
  "out_of_range_settings =
     ndi_filter_getdefaults\<lparr> prop_custom_width := 100000, prop_custom_height := 10,
       prop_custom_fps_num := 0, prop_custom_fps_den := 0,
       prop_crop_left := - 5, prop_crop_top := - 7 \<rparr>"

text \<open>A custom frame rate of 2000000000/1, set in the settings without the property panel.\<close>

definition gigahertz_settings :: obs_data where
  "gigahertz_settings =
     ndi_filter_getdefaults\<lparr> prop_enable_custom_fps := True, prop_framerate_mode := 11,
       prop_custom_fps_num := 2000000000, prop_custom_fps_den := 1 \<rparr>"

text \<open>The 29.97 fps converter in the middle of a stream.\<close>

definition paced_converter :: ndi_video_converter where
  "paced_converter =
     ntsc_converter\<lparr> accumulator_ns := 33333333, last_frame_timestamp := 33333433 \<rparr>"

text \<open>
  The frame rate enabled with the mode left at \<^verbatim>\<open>NDI_FRAMERATE_AUTO\<close> (``use source frame
  rate''), a filter at 1920x1080 holding that converter, and a frame.
\<close>

definition auto_rate_settings :: obs_data where
  "auto_rate_settings =
     ndi_filter_getdefaults\<lparr> prop_enable_custom_fps := True, prop_framerate_mode := 0 \<rparr>"

definition auto_rate_converter :: ndi_video_converter where
  "auto_rate_converter = ndi_converter_update ndi_converter_init auto_rate_settings"

definition auto_rate_filter :: ndi_filter where
  "auto_rate_filter =
     \<lparr> known_width = 1920, known_height = 1080, ovi_fps_num = 30, ovi_fps_den = 1,
       converter = auto_rate_converter \<rparr>"

definition frame_at :: "u64 \<Rightarrow> video_data" where
  "frame_at t = \<lparr> data0 = Some 4096, linesize0 = 7680, timestamp = t \<rparr>"

text \<open>The 29.97 fps converter after a first frame at 1 ns.\<close>

definition started_converter :: ndi_video_converter where
  "started_converter = ntsc_converter\<lparr> last_frame_timestamp := 1 \<rparr>"

text \<open>
  A converter scaling a 1920x1080 source to the 720p preset, with its scaler and buffer
  built, and the same converter after the settings move the target to the 1440p preset.
\<close>

definition settings_720p :: obs_data where
  "settings_720p =
     ndi_filter_getdefaults\<lparr> prop_enable_custom_res := True, prop_resolution_mode := 1 \<rparr>"

definition settings_1440p :: obs_data where
  "settings_1440p =
     ndi_filter_getdefaults\<lparr> prop_enable_custom_res := True, prop_resolution_mode := 3 \<rparr>"

definition scaling_converter :: ndi_video_converter where
  "scaling_converter =
     snd (ndi_converter_update_scaler True 4096
            (ndi_converter_update ndi_converter_init settings_720p)
            1920 1080 (VIDEO_FORMAT_OTHER 2))"

definition retargeted_converter :: ndi_video_converter where
  "retargeted_converter = ndi_converter_update scaling_converter settings_1440p"

text \<open>
  A filter rendering a 3840x2160 source at 1920x1080 (the 1080p preset) with a crop of
  width 1, the other crop fields 0.
\<close>

definition thin_crop_settings :: obs_data where
  "thin_crop_settings =
     ndi_filter_getdefaults\<lparr> prop_enable_custom_res := True, prop_resolution_mode := 2,
       prop_enable_crop := True, prop_crop_width := 1 \<rparr>"

definition half_scale_filter :: ndi_filter where
  "half_scale_filter =
     \<lparr> known_width = 1920, known_height = 1080, ovi_fps_num = 30, ovi_fps_den = 1,
       converter = ndi_converter_update ndi_converter_init thin_crop_settings \<rparr>"

text \<open>
  A filter at 1920x1080 without scaling, whose settings hold a crop left of 1 and a crop
  width of 4294967295 (the value \<^verbatim>\<open>uint32_t\<close> also reads from a setting of -1).
\<close>

definition wide_crop_settings :: obs_data where
  "wide_crop_settings =
     ndi_filter_getdefaults\<lparr> prop_enable_crop := True, prop_crop_left := 1,
       prop_crop_width := 4294967295 \<rparr>"

definition wide_crop_filter :: ndi_filter where
  "wide_crop_filter =
     \<lparr> known_width = 1920, known_height = 1080, ovi_fps_num = 30, ovi_fps_den = 1,
       converter = ndi_converter_update ndi_converter_init wide_crop_settings \<rparr>"

section \<open>Rounding and truncation\<close>

lemma round_nearest_even_of_int: "round_nearest_even (of_int n) = n"
  by (simp add: round_nearest_even_def)

lemma round_nearest_even_floor: "\<lfloor>x\<rfloor> \<le> round_nearest_even x"
  by (simp add: round_nearest_even_def Let_def)

lemma round_nearest_even_ge: "of_int n \<le> x \<Longrightarrow> n \<le> round_nearest_even x"
proof -
  assume "of_int n \<le> x"
  then have "n \<le> \<lfloor>x\<rfloor>" by (simp add: le_floor_iff)
  with round_nearest_even_floor [of x] show ?thesis by linarith
qed

lemma round_nearest_even_le: "x \<le> of_int n \<Longrightarrow> round_nearest_even x \<le> n"
proof -
  assume h: "x \<le> of_int n"
  show ?thesis
  proof (cases "x = of_int n")
    case True then show ?thesis by (simp add: round_nearest_even_of_int)
  next
    case False
    with h have "x < of_int n" by simp
    then have "\<lfloor>x\<rfloor> < n" by (simp add: floor_less_iff)
    then show ?thesis by (auto simp: round_nearest_even_def Let_def)
  qed
qed

lemma round_nearest_even_upper: "of_int (round_nearest_even x) \<le> x + 1 / 2"
proof -
  have a: "of_int \<lfloor>x\<rfloor> \<le> x" by simp
  have "round_nearest_even x = \<lfloor>x\<rfloor> \<or> (round_nearest_even x = \<lfloor>x\<rfloor> + 1 \<and> 1 / 2 \<le> x - of_int \<lfloor>x\<rfloor>)"
    by (simp add: round_nearest_even_def Let_def)
  then show ?thesis
  proof
    assume r: "round_nearest_even x = \<lfloor>x\<rfloor>"
    have "of_int \<lfloor>x\<rfloor> \<le> x + 1 / 2" using of_int_floor_le [of x] by linarith
    then show ?thesis unfolding r .
  next
    assume "round_nearest_even x = \<lfloor>x\<rfloor> + 1 \<and> 1 / 2 \<le> x - of_int \<lfloor>x\<rfloor>"
    then have r: "round_nearest_even x = \<lfloor>x\<rfloor> + 1" and h: "1 / 2 \<le> x - of_int \<lfloor>x\<rfloor>" by auto
    have "of_int (\<lfloor>x\<rfloor> + 1) \<le> x + 1 / 2" using h by simp
    then show ?thesis unfolding r .
  qed
qed

lemma binary_exponent_bounds:
  assumes "0 < x"
  shows "2 powi binary_exponent x \<le> x" and "x < 2 powi (binary_exponent x + 1)"
proof -
  have "2 powi binary_exponent x \<le> x \<and> x < 2 powi (binary_exponent x + 1)"
  proof (cases "1 \<le> x")
    case True
    define n where "n = \<lfloor>x\<rfloor>"
    have n1: "1 \<le> n" using True by (simp add: n_def le_floor_iff)
    then have n0: "0 < n" by simp
    have bl: "1 \<le> bitlen n" using n0 by (auto simp: bitlen_alt_def)
    from bitlen_bounds [OF n0]
    have lo: "2 ^ nat (bitlen n - 1) \<le> n" and hi: "n < 2 ^ nat (bitlen n)" by auto
    have e: "binary_exponent x = bitlen n - 1" using True by (simp add: binary_exponent_def n_def)
    have "(2::rat) powi (bitlen n - 1) = 2 ^ nat (bitlen n - 1)"
      using bl by (simp add: power_int_def)
    also have "\<dots> = of_int (2 ^ nat (bitlen n - 1))" by simp
    also have "\<dots> \<le> of_int n" using lo by (simp only: of_int_le_iff)
    also have "\<dots> \<le> x" by (simp add: n_def)
    finally have A: "2 powi (bitlen n - 1) \<le> x" .
    have "n + 1 \<le> 2 ^ nat (bitlen n)" using hi by simp
    then have "(of_int (n + 1) :: rat) \<le> of_int (2 ^ nat (bitlen n))" by (simp only: of_int_le_iff)
    moreover have "x < of_int (n + 1)" unfolding n_def by linarith
    ultimately have "x < of_int (2 ^ nat (bitlen n))" by linarith
    also have "\<dots> = 2 powi (bitlen n - 1 + 1)" using bl by (simp add: power_int_def)
    finally show ?thesis using A e by simp
  next
    case False
    then have x1: "x < 1" by simp
    define y where "y = 1 / x"
    have y1: "1 < y" using assms x1 by (simp add: y_def)
    define m where "m = \<lceil>y\<rceil> - 1"
    have m0: "0 < m" using y1 unfolding m_def by (simp add: less_ceiling_iff)
    have my: "of_int m < y" unfolding m_def by linarith
    have ym: "y \<le> of_int (m + 1)" unfolding m_def by simp
    have bl: "1 \<le> bitlen m" using m0 by (auto simp: bitlen_alt_def)
    from bitlen_bounds [OF m0]
    have lo: "2 ^ nat (bitlen m - 1) \<le> m" and hi: "m < 2 ^ nat (bitlen m)" by auto
    have e: "binary_exponent x = - bitlen m" using False by (simp add: binary_exponent_def m_def y_def)
    have "m + 1 \<le> 2 ^ nat (bitlen m)" using hi by simp
    then have "(of_int (m + 1) :: rat) \<le> of_int (2 ^ nat (bitlen m))" by (simp only: of_int_le_iff)
    with ym have "y \<le> of_int (2 ^ nat (bitlen m))" by linarith
    then have yle: "y \<le> 2 ^ nat (bitlen m)" by simp
    have "(of_int (2 ^ nat (bitlen m - 1)) :: rat) \<le> of_int m" using lo by (simp only: of_int_le_iff)
    with my have "of_int (2 ^ nat (bitlen m - 1)) < y" by linarith
    then have ylt: "2 ^ nat (bitlen m - 1) < y" by simp
    have p1: "(2::rat) powi (- bitlen m) = 1 / 2 ^ nat (bitlen m)"
      using bl by (simp add: power_int_def field_simps)
    have p2: "(2::rat) powi (- bitlen m + 1) = 1 / 2 ^ nat (bitlen m - 1)"
      using bl by (simp add: power_int_def field_simps nat_diff_distrib)
    have A: "2 powi (- bitlen m) \<le> x"
      unfolding p1 using yle assms by (simp add: y_def field_simps)
    have B: "x < 2 powi (- bitlen m + 1)"
      unfolding p2 using ylt assms by (simp add: y_def field_simps)
    show ?thesis using A B e by simp
  qed
  then show "2 powi binary_exponent x \<le> x" and "x < 2 powi (binary_exponent x + 1)" by auto
qed


lemma two_powi_less_D: "(2::rat) powi a < 2 powi b \<Longrightarrow> a < b"
  using power_int_increasing [of b a "2::rat"] by (cases "a < b") auto

lemma fl_round_pos:
  "0 < x \<Longrightarrow> fl_round p x =
     of_int (round_nearest_even (x / 2 powi (binary_exponent x - int p + 1))) *
       2 powi (binary_exponent x - int p + 1)"
  by (simp add: fl_round_def Let_def)

lemma fl_round_exact:
  assumes m: "0 < m" "m < 2 ^ p"
  shows "fl_round p (of_int m * 2 powi k) = of_int m * 2 powi k"
proof -
  define x :: rat where "x = of_int m * 2 powi k"
  have x0: "0 < x" using m by (simp add: x_def)
  define e where "e = binary_exponent x"
  have "2 powi e \<le> x" unfolding e_def by (rule binary_exponent_bounds(1) [OF x0])
  also have "x < 2 ^ p * 2 powi k"
  proof -
    have "(of_int m :: rat) < of_int (2 ^ p)" using m(2) by (simp only: of_int_less_iff)
    then show ?thesis by (simp add: x_def)
  qed
  also have "\<dots> = 2 powi (int p + k)" by (simp add: power_int_add)
  finally have "(2::rat) powi e < 2 powi (int p + k)" .
  then have "e < int p + k" by (rule two_powi_less_D)
  then have j0: "0 \<le> k - (e - int p + 1)" by simp
  define j where "j = nat (k - (e - int p + 1))"
  have kj: "k = (e - int p + 1) + int j" using j0 by (simp add: j_def)
  have "x / 2 powi (e - int p + 1) = of_int m * 2 ^ j"
    unfolding x_def by (subst kj) (simp add: power_int_add)
  also have "\<dots> = of_int (m * 2 ^ j)" by simp
  finally have q: "x / 2 powi (e - int p + 1) = of_int (m * 2 ^ j)" .
  have "fl_round p x = of_int (m * 2 ^ j) * 2 powi (e - int p + 1)"
    by (simp only: fl_round_pos [OF x0] e_def [symmetric] q round_nearest_even_of_int)
  also have "\<dots> = of_int m * (2 powi int j * 2 powi (e - int p + 1))" by simp
  also have "2 powi int j * (2::rat) powi (e - int p + 1) = 2 powi k"
    by (subst kj) (simp add: power_int_add)
  finally show ?thesis by (simp add: x_def)
qed

lemma fl_round_of_nat:
  assumes "n < 2 ^ p"
  shows "fl_round p (of_nat n) = of_nat n"
proof (cases "n = 0")
  case True
  then show ?thesis by (simp add: fl_round_def)
next
  case False
  have "int n < 2 ^ p" using assms by (metis of_nat_less_iff of_nat_numeral of_nat_power)
  with False have "fl_round p (of_int (int n) * 2 powi 0) = of_int (int n) * 2 powi 0"
    by (intro fl_round_exact) auto
  then show ?thesis by simp
qed

lemma fl_round_lower:
  assumes x0: "0 < x" and p: "0 < p"
  shows "2 powi binary_exponent x \<le> fl_round p x"
proof -
  define e where "e = binary_exponent x"
  define u :: rat where "u = 2 powi (e - int p + 1)"
  have u0: "0 < u" by (simp add: u_def)
  have "2 powi e \<le> x" unfolding e_def by (rule binary_exponent_bounds(1) [OF x0])
  then have "2 powi e / u \<le> x / u" using u0 by (simp add: divide_right_mono)
  moreover have "2 powi e / u = (2::rat) powi (int (p - 1))"
    using p by (simp add: u_def power_int_diff [symmetric] of_nat_diff)
  ultimately have "of_int (2 ^ (p - 1)) \<le> x / u" by simp
  then have "2 ^ (p - 1) \<le> round_nearest_even (x / u)" by (rule round_nearest_even_ge)
  then have "(of_int (2 ^ (p - 1)) :: rat) \<le> of_int (round_nearest_even (x / u))"
    by (simp only: of_int_le_iff)
  then have "of_int (2 ^ (p - 1)) * u \<le> of_int (round_nearest_even (x / u)) * u"
    using u0 by (simp add: mult_right_mono)
  moreover have "of_int (2 ^ (p - 1)) * u = 2 powi e"
    using p by (simp add: u_def power_int_add [symmetric] of_nat_diff flip: power_int_of_nat)
  ultimately show ?thesis
    by (simp add: fl_round_pos [OF x0] e_def [symmetric] u_def [symmetric])
qed

lemma fl_round_upper:
  assumes x0: "0 < x" and p: "0 < p"
  shows "fl_round p x \<le> 2 powi (binary_exponent x + 1)"
proof -
  define e where "e = binary_exponent x"
  define u :: rat where "u = 2 powi (e - int p + 1)"
  have u0: "0 < u" by (simp add: u_def)
  have "x < 2 powi (e + 1)" unfolding e_def by (rule binary_exponent_bounds(2) [OF x0])
  then have "x / u \<le> 2 powi (e + 1) / u" using u0 by (simp add: divide_right_mono)
  moreover have "2 powi (e + 1) / u = (2::rat) powi (int p)"
    by (simp add: u_def power_int_diff [symmetric])
  ultimately have "x / u \<le> of_int (2 ^ p)" by simp
  then have "round_nearest_even (x / u) \<le> 2 ^ p" by (rule round_nearest_even_le)
  then have "(of_int (round_nearest_even (x / u)) :: rat) \<le> of_int (2 ^ p)"
    by (simp only: of_int_le_iff)
  then have "of_int (round_nearest_even (x / u)) * u \<le> of_int (2 ^ p) * u"
    using u0 by (simp add: mult_right_mono)
  moreover have "of_int (2 ^ p) * u = 2 powi (e + 1)"
    by (simp add: u_def power_int_add [symmetric] flip: power_int_of_nat)
  ultimately show ?thesis
    by (simp add: fl_round_pos [OF x0] e_def [symmetric] u_def [symmetric])
qed


lemma floor_fl_round_quotient:
  fixes a b :: int
  assumes a0: "0 < a" and b0: "0 < b" and ap: "a < 2 ^ p"
  shows "\<lfloor>fl_round p (of_int a / of_int b)\<rfloor> = a div b"
proof -
  define x :: rat where "x = of_int a / of_int b"
  have x0: "0 < x" using a0 b0 by (simp add: x_def)
  define e where "e = binary_exponent x"
  define k where "k = a div b"
  define r where "r = a mod b"
  have a_eq: "a = k * b + r" by (simp add: k_def r_def)
  have r_bounds: "0 \<le> r" "r \<le> b - 1" using b0 by (simp_all add: r_def) 
  have le: "2 powi e \<le> x" unfolding e_def by (rule binary_exponent_bounds(1) [OF x0])
  have xa: "x \<le> of_int a"
  proof -
    have "(1::rat) \<le> of_int b" using b0 by simp
    then show ?thesis using a0 by (simp add: x_def field_simps)
  qed
  have ap': "(of_int a :: rat) < of_int (2 ^ p)" using ap by (simp only: of_int_less_iff)
  have "(2::rat) powi e < of_int (2 ^ p)" using le xa ap' by linarith
  then have "(2::rat) powi e < 2 powi (int p)" by simp
  then have ep: "e < int p" by (rule two_powi_less_D)
  define n where "n = nat (int p - 1 - e)"
  define s :: int where "s = 2 ^ n"
  have s0: "0 < s" by (simp add: s_def)
  have u_eq: "(2::rat) powi (e - int p + 1) = 1 / of_int s"
  proof -
    have "e - int p + 1 = - int n" using ep by (simp add: n_def)
    then have "(2::rat) powi (e - int p + 1) = 2 powi (- int n)" by simp
    also have "\<dots> = 1 / 2 ^ n" by (simp add: power_int_minus_divide)
    finally show ?thesis by (simp add: s_def)
  qed
  have xs: "x / (2 powi (e - int p + 1)) = x * of_int s" by (simp add: u_eq)
  have fl: "fl_round p x = of_int (round_nearest_even (x * of_int s)) / of_int s"
    by (simp only: fl_round_pos [OF x0] e_def [symmetric] xs) (simp add: u_eq)
  \<comment> \<open>the divisor is below twice the scaling\<close>
  have bs: "of_int b < 2 * (of_int s :: rat)"
  proof -
    have "of_int b * (2::rat) powi e \<le> of_int a"
      using le b0 by (simp add: x_def field_simps)
    also have "\<dots> < 2 ^ p" using ap' by simp
    also have "\<dots> = 2 powi (int p - 1 - e) * 2 * 2 powi e"
      by (simp add: power_int_diff)
    finally have "of_int b * (2::rat) powi e < (2 powi (int p - 1 - e) * 2) * 2 powi e" .
    then have "of_int b < (2::rat) powi (int p - 1 - e) * 2" by simp
    moreover have "(2::rat) powi (int p - 1 - e) = of_int s"
      using ep by (simp add: s_def n_def power_int_def)
    ultimately show ?thesis by simp
  qed
  have kx: "of_int k \<le> x"
  proof -
    have "k * b \<le> a" using a_eq r_bounds(1) by linarith
    then have "(of_int (k * b) :: rat) \<le> of_int a" by (simp only: of_int_le_iff)
    then have "of_int k * of_int b \<le> (of_int a :: rat)" by simp
    then show ?thesis using b0 by (simp add: x_def field_simps)
  qed
  have xk: "x \<le> of_int k + 1 - 1 / of_int b"
  proof -
    have "a \<le> k * b + (b - 1)" using a_eq r_bounds(2) by linarith
    then have "(of_int a :: rat) \<le> of_int (k * b + (b - 1))" by (simp only: of_int_le_iff)
    moreover have "(of_int k + 1 - 1 / of_int b) * of_int b = (of_int (k * b + (b - 1)) :: rat)"
      using b0 by (simp add: algebra_simps)
    ultimately have "(of_int a :: rat) \<le> (of_int k + 1 - 1 / of_int b) * of_int b"
      by (simp only:)
    then show ?thesis using b0 by (simp add: x_def pos_divide_le_eq)
  qed
  have lower: "k * s \<le> round_nearest_even (x * of_int s)"
  proof (rule round_nearest_even_ge)
    show "of_int (k * s) \<le> x * of_int s" using kx s0 by (simp add: mult_right_mono)
  qed
  have upper: "round_nearest_even (x * of_int s) < (k + 1) * s"
  proof -
    have "of_int (round_nearest_even (x * of_int s)) \<le> x * of_int s + 1 / 2"
      by (rule round_nearest_even_upper)
    also have "\<dots> \<le> (of_int k + 1 - 1 / of_int b) * of_int s + 1 / 2"
      using xk s0 by (simp add: mult_right_mono)
    also have "\<dots> = of_int ((k + 1) * s) - (of_int s / of_int b - 1 / 2)"
      by (simp add: algebra_simps)
    also have "\<dots> < of_int ((k + 1) * s)"
    proof -
      have "1 / 2 < (of_int s :: rat) / of_int b" using bs b0 by (simp add: field_simps)
      then show ?thesis by simp
    qed
    finally show ?thesis by (simp only: of_int_less_iff)
  qed
  have "\<lfloor>fl_round p x\<rfloor> = k"
  proof (rule floor_unique)
    have "(of_int (k * s) :: rat) \<le> of_int (round_nearest_even (x * of_int s))"
      using lower by (simp only: of_int_le_iff)
    then show "of_int k \<le> fl_round p x"
      unfolding fl using s0 by (simp add: pos_le_divide_eq)
    have "(of_int (round_nearest_even (x * of_int s)) :: rat) < of_int ((k + 1) * s)"
      using upper by (simp only: of_int_less_iff)
    then show "fl_round p x < of_int k + 1"
      unfolding fl using s0 by (simp add: pos_divide_less_eq)
  qed
  then show ?thesis by (simp add: x_def k_def)
qed


lemma unat_u32_less: "unat (w :: u32) < 2 ^ 32"
  using unsigned_less [of w, where 'a = nat] by simp

lemma double_of_u32_exact: "double_of_u32 w = unsigned w"
proof -
  have "unat w < 2 ^ 53" using unat_u32_less [of w] by simp
  then have "fl_round 53 (of_nat (unat w)) = of_nat (unat w)" by (rule fl_round_of_nat)
  then show ?thesis by (simp add: double_of_u32_def)
qed

lemma double_mul_1e9_exact:
  "double_mul 1000000000 (unsigned (w :: u32)) = 1000000000 * unsigned w"
proof (cases "w = 0")
  case True
  then show ?thesis by (simp add: double_mul_def fl_round_def)
next
  case False
  define m where "m = 1953125 * uint w"
  have "0 < w" using False by (simp add: word_neq_0_conv)
  then have "0 < uint w" by (simp add: word_less_def)
  then have m0: "0 < m" by (simp add: m_def)
  have "uint w < 2 ^ 32" using unsigned_less [of w, where 'a = int] by simp
  then have "m < 2 ^ 53" by (simp add: m_def)
  then have "fl_round 53 (of_int m * 2 powi 9) = of_int m * 2 powi 9"
    using m0 by (intro fl_round_exact) auto
  moreover have "(of_int m :: rat) * 2 powi 9 = 1000000000 * unsigned w"
    by (simp add: m_def)
  ultimately show ?thesis by (simp add: double_mul_def)
qed

text \<open>The value before the cast, for a positive rate.\<close>

lemma frame_interval_ns_eq:
  "frame_interval_ns den num =
     word_of_int (trunc_toward_zero (fl_round 53 (of_int (1000000000 * uint den) / of_int (uint num))))"
  by (simp add: frame_interval_ns_def int64_of_double_def double_div_def double_of_u32_exact
      double_mul_1e9_exact)

lemma sint_of_int_64:
  "- (2 ^ 63) \<le> k \<Longrightarrow> k < 2 ^ 63 \<Longrightarrow> sint (word_of_int k :: 64 word) = k"
  by (simp add: sint_sbintrunc' signed_take_bit_int_eq_self)

lemma sint_of_int_32:
  "- (2 ^ 31) \<le> k \<Longrightarrow> k < 2 ^ 31 \<Longrightarrow> sint (word_of_int k :: 32 word) = k"
  by (simp add: sint_sbintrunc' signed_take_bit_int_eq_self)

lemma uint_pos: "0 < (w :: 'a::len word) \<Longrightarrow> 0 < uint w"
  by (simp add: word_less_def)

lemma fl_round_nonneg: "0 \<le> x \<Longrightarrow> 0 \<le> fl_round p x"
  by (simp add: fl_round_def Let_def round_nearest_even_ge zero_le_mult_iff sgn_if)

lemma frame_interval_ns_small:
  assumes num: "0 < num" and den: "0 < den" and small: "1000000000 * uint den < 2 ^ 53"
  shows "sint (frame_interval_ns den num) = (1000000000 * uint den) div uint num"
proof -
  define a where "a = 1000000000 * uint den"
  define b where "b = uint num"
  have a0: "0 < a" using uint_pos [OF den] by (simp add: a_def)
  have b0: "0 < b" using uint_pos [OF num] by (simp add: b_def)
  have fl: "\<lfloor>fl_round 53 (of_int a / of_int b)\<rfloor> = a div b"
    using a0 b0 small by (intro floor_fl_round_quotient) (simp_all add: a_def)
  have "0 \<le> fl_round 53 (of_int a / of_int b)"
    using a0 b0 by (intro fl_round_nonneg) simp
  then have t: "trunc_toward_zero (fl_round 53 (of_int a / of_int b)) = a div b"
    by (simp add: trunc_toward_zero_def fl)
  have "0 \<le> a div b" using a0 b0 by (simp add: pos_imp_zdiv_nonneg_iff)
  moreover have "a div b \<le> a" using zdiv_mono2 [of a 1 b] a0 b0 by simp
  ultimately have "sint (word_of_int (a div b) :: i64) = a div b"
    using small by (intro sint_of_int_64) (simp_all add: a_def)
  then show ?thesis
    by (simp only: frame_interval_ns_eq a_def [symmetric] b_def [symmetric] t)
qed


lemma binary_exponent_nonneg: "1 \<le> x \<Longrightarrow> 0 \<le> binary_exponent x"
proof -
  assume x: "1 \<le> x"
  then have "0 < \<lfloor>x\<rfloor>" by (simp add: less_floor_iff) 
  then have "1 \<le> bitlen \<lfloor>x\<rfloor>" by (auto simp: bitlen_alt_def)
  then show ?thesis using x by (simp add: binary_exponent_def)
qed

lemma fl_round_ge_1:
  assumes "1 \<le> x" and "0 < p"
  shows "1 \<le> fl_round p x"
proof -
  have "(1::rat) \<le> 2 powi binary_exponent x"
    using binary_exponent_nonneg [OF assms(1)] by simp
  also have "\<dots> \<le> fl_round p x" using assms by (intro fl_round_lower) simp_all
  finally show ?thesis .
qed

lemma fl_round_le_power:
  assumes x0: "0 < x" and xn: "x < 2 ^ n" and p: "0 < p"
  shows "fl_round p x \<le> 2 ^ n"
proof -
  have "2 powi binary_exponent x \<le> x" by (rule binary_exponent_bounds(1) [OF x0])
  with xn have "(2::rat) powi binary_exponent x < 2 powi int n" by simp
  then have "binary_exponent x + 1 \<le> int n" using two_powi_less_D by fastforce
  then have "(2::rat) powi (binary_exponent x + 1) \<le> 2 powi int n"
    by (intro power_int_increasing) simp_all
  with fl_round_upper [OF x0 p] show ?thesis by simp
qed

lemma frame_interval_ns_range:
  assumes num: "0 < num" and den: "0 < den"
  shows "sint (frame_interval_ns den num) =
           \<lfloor>fl_round 53 (of_int (1000000000 * uint den) / of_int (uint num))\<rfloor>"
    and "0 \<le> sint (frame_interval_ns den num)"
proof -
  define a where "a = 1000000000 * uint den"
  define b where "b = uint num"
  define x :: rat where "x = of_int a / of_int b"
  have a0: "0 < a" using uint_pos [OF den] by (simp add: a_def)
  have b0: "0 < b" using uint_pos [OF num] by (simp add: b_def)
  have x0: "0 < x" using a0 b0 by (simp add: x_def)
  have "uint den < 2 ^ 32" using unsigned_less [of den, where 'a = int] by simp
  then have a62: "a < 2 ^ 62" by (simp add: a_def)
  have "x \<le> of_int a"
  proof -
    have "(1::rat) \<le> of_int b" using b0 by simp
    then show ?thesis using a0 by (simp add: x_def field_simps)
  qed
  moreover have "(of_int a :: rat) < of_int (2 ^ 62)" using a62 by (simp only: of_int_less_iff)
  ultimately have "x < 2 ^ 62" by simp
  then have "fl_round 53 x \<le> 2 ^ 62" using x0 by (intro fl_round_le_power) simp_all
  then have "fl_round 53 x \<le> of_int (2 ^ 62)" by simp
  then have hi: "\<lfloor>fl_round 53 x\<rfloor> \<le> 2 ^ 62" by (simp only: floor_le_iff)
  have nn: "0 \<le> fl_round 53 x" using x0 by (intro fl_round_nonneg) simp
  then have lo: "0 \<le> \<lfloor>fl_round 53 x\<rfloor>" by simp
  have t: "trunc_toward_zero (fl_round 53 x) = \<lfloor>fl_round 53 x\<rfloor>"
    using nn by (simp add: trunc_toward_zero_def)
  have "sint (word_of_int \<lfloor>fl_round 53 x\<rfloor> :: i64) = \<lfloor>fl_round 53 x\<rfloor>"
    using lo hi by (intro sint_of_int_64) simp_all
  then have eq: "sint (frame_interval_ns den num) = \<lfloor>fl_round 53 x\<rfloor>"
    by (simp only: frame_interval_ns_eq a_def [symmetric] b_def [symmetric] x_def [symmetric] t)
  show "sint (frame_interval_ns den num) =
           \<lfloor>fl_round 53 (of_int (1000000000 * uint den) / of_int (uint num))\<rfloor>"
    using eq by (simp only: x_def a_def b_def)
  show "0 \<le> sint (frame_interval_ns den num)" using eq lo by simp
qed

lemma frame_interval_ns_pos_iff:
  assumes num: "0 < num" and den: "0 < den"
  shows "0 < sint (frame_interval_ns den num) \<longleftrightarrow> uint num \<le> 1000000000 * uint den"
proof -
  define a where "a = 1000000000 * uint den"
  define b where "b = uint num"
  define x :: rat where "x = of_int a / of_int b"
  have a0: "0 < a" using uint_pos [OF den] by (simp add: a_def)
  have b0: "0 < b" using uint_pos [OF num] by (simp add: b_def)
  have eq: "sint (frame_interval_ns den num) = \<lfloor>fl_round 53 x\<rfloor>"
    using frame_interval_ns_range(1) [OF num den] by (simp only: x_def a_def b_def)
  show ?thesis
  proof (cases "b \<le> a")
    case True
    then have "(of_int b :: rat) \<le> of_int a" by (simp only: of_int_le_iff)
    then have "1 \<le> x" using b0 by (simp add: x_def field_simps)
    then have "1 \<le> fl_round 53 x" by (rule fl_round_ge_1) simp
    then have "1 \<le> \<lfloor>fl_round 53 x\<rfloor>" by (simp add: le_floor_iff)
    then show ?thesis using True eq by (simp add: a_def b_def)
  next
    case False
    then have ab: "a < b" by simp
    have "b < 2 ^ 32" using unsigned_less [of num, where 'a = int] by (simp add: b_def)
    with ab have "a < 2 ^ 53" by simp
    then have "\<lfloor>fl_round 53 x\<rfloor> = a div b"
      unfolding x_def using a0 b0 by (intro floor_fl_round_quotient)
    also have "\<dots> = 0" using ab a0 by simp
    finally show ?thesis using False eq by (simp add: a_def b_def)
  qed
qed


section \<open>The settings update\<close>

lemmas mode_defs =
  NDI_RESOLUTION_AUTO_def NDI_RESOLUTION_720P_def NDI_RESOLUTION_1080P_def
  NDI_RESOLUTION_1440P_def NDI_RESOLUTION_4K_def NDI_RESOLUTION_CUSTOM_def
  NDI_FRAMERATE_AUTO_def NDI_FRAMERATE_5_def NDI_FRAMERATE_10_def NDI_FRAMERATE_15_def
  NDI_FRAMERATE_24_def NDI_FRAMERATE_25_def NDI_FRAMERATE_30_def NDI_FRAMERATE_2997_def
  NDI_FRAMERATE_50_def NDI_FRAMERATE_60_def NDI_FRAMERATE_5994_def NDI_FRAMERATE_CUSTOM_def
  NDI_SCALE_FAST_BILINEAR_def NDI_SCALE_BILINEAR_def NDI_SCALE_BICUBIC_def

lemmas update_defs =
  ndi_converter_update_def update_framerate_def update_crop_def update_resolution_def

lemma ntsc_converter_fields:
  "enable_custom_framerate ntsc_converter"
  "target_fps_num ntsc_converter = 30000"
  "target_fps_den ntsc_converter = 1001"
  "accumulator_ns ntsc_converter = 0"
  "last_frame_timestamp ntsc_converter = 0"
  by (simp_all add: ntsc_converter_def ntsc_settings_def ndi_filter_getdefaults_def update_defs
      Let_def mode_defs ndi_converter_get_preset_framerate_def)

lemma ntsc_interval: "target_frame_interval_ns ntsc_converter = 33366666"
proof -
  have "sint (frame_interval_ns 1001 30000) = 33366666"
    by (subst frame_interval_ns_small) simp_all
  then have "frame_interval_ns 1001 30000 = 33366666"
    by (intro signed_word_eqI) simp
  then show ?thesis
    by (simp add: ntsc_converter_def ntsc_settings_def ndi_filter_getdefaults_def update_defs
      Let_def mode_defs ndi_converter_get_preset_framerate_def)
qed


lemma update_resolution_clamps:
  "128 \<le> custom_width (update_resolution c s) \<and> custom_width (update_resolution c s) \<le> 7680 \<and>
   72 \<le> custom_height (update_resolution c s) \<and> custom_height (update_resolution c s) \<le> 4320"
  by (simp add: update_resolution_def Let_def not_less)

text \<open>The clamps as equations: a value in range is kept, one outside moves to the nearer bound.\<close>

lemma update_resolution_custom_size:
  "custom_width (update_resolution c s) =
     (if (ucast (prop_custom_width s) :: u32) < 128 then 128
      else if 7680 < (ucast (prop_custom_width s) :: u32) then 7680
      else ucast (prop_custom_width s)) \<and>
   custom_height (update_resolution c s) =
     (if (ucast (prop_custom_height s) :: u32) < 72 then 72
      else if 4320 < (ucast (prop_custom_height s) :: u32) then 4320
      else ucast (prop_custom_height s))"
  by (simp add: update_resolution_def Let_def)

lemma update_resolution_target_eq:
  "enable_custom_resolution (update_resolution c s) = prop_enable_custom_res s \<and>
   resolution_mode (update_resolution c s) = ucast (prop_resolution_mode s) \<and>
   (target_width (update_resolution c s), target_height (update_resolution c s)) =
     (if prop_enable_custom_res s
      then if resolution_mode (update_resolution c s) = NDI_RESOLUTION_CUSTOM
           then (custom_width (update_resolution c s), custom_height (update_resolution c s))
           else ndi_converter_get_preset_resolution (resolution_mode (update_resolution c s))
      else (0, 0))"
  by (simp add: update_resolution_def Let_def)

lemma update_resolution_target:
  "(0 < target_width (update_resolution c s) \<and> 0 < target_height (update_resolution c s)) =
   (enable_custom_resolution (update_resolution c s) \<and>
    (resolution_mode (update_resolution c s) = NDI_RESOLUTION_720P \<or>
     resolution_mode (update_resolution c s) = NDI_RESOLUTION_1080P \<or>
     resolution_mode (update_resolution c s) = NDI_RESOLUTION_1440P \<or>
     resolution_mode (update_resolution c s) = NDI_RESOLUTION_4K \<or>
     resolution_mode (update_resolution c s) = NDI_RESOLUTION_CUSTOM))"
proof -
  have w: "(0::u32) < (if 7680 < (if w < 128 then 128 else w) then 7680 else (if w < 128 then 128 else w))"
    for w :: u32
    by (simp add: word_neq_0_conv [symmetric]) (auto simp: not_less)
  have h: "(0::u32) < (if 4320 < (if w < 72 then 72 else w) then 4320 else (if w < 72 then 72 else w))"
    for w :: u32
    by (simp add: word_neq_0_conv [symmetric]) (auto simp: not_less)
  show ?thesis
    using w [of "ucast (prop_custom_width s)"] h [of "ucast (prop_custom_height s)"]
    by (simp add: update_resolution_def Let_def ndi_converter_get_preset_resolution_def mode_defs)
qed

lemma update_crop_clamps:
  "0 \<le> sint (crop_left (update_crop c s)) \<and> 0 \<le> sint (crop_top (update_crop c s)) \<and>
   crop_left (update_crop c s) =
     (if sint (ucast (prop_crop_left s) :: i32) < 0 then 0 else ucast (prop_crop_left s)) \<and>
   crop_top (update_crop c s) =
     (if sint (ucast (prop_crop_top s) :: i32) < 0 then 0 else ucast (prop_crop_top s))"
  by (simp add: update_crop_def Let_def)

lemma word_one_le_iff: "1 \<le> w \<longleftrightarrow> w \<noteq> 0" for w :: "'a::len word"
  by (simp add: word_le_nat_alt Suc_le_eq unat_gt_0)

lemma update_framerate_clamps:
  "1 \<le> custom_fps_num (update_framerate c s) \<and> 1 \<le> custom_fps_den (update_framerate c s)"
  by (simp add: update_framerate_def Let_def word_one_le_iff)

lemma update_framerate_custom_rate:
  "custom_fps_num (update_framerate c s) =
     (if (ucast (prop_custom_fps_num s) :: u32) < 1 then 1 else ucast (prop_custom_fps_num s)) \<and>
   custom_fps_den (update_framerate c s) =
     (if (ucast (prop_custom_fps_den s) :: u32) < 1 then 1 else ucast (prop_custom_fps_den s))"
  by (simp add: update_framerate_def Let_def)

lemma update_framerate_target_eq:
  "enable_custom_framerate (update_framerate c s) = prop_enable_custom_fps s \<and>
   framerate_mode (update_framerate c s) = ucast (prop_framerate_mode s) \<and>
   (target_fps_num (update_framerate c s), target_fps_den (update_framerate c s)) =
     (if prop_enable_custom_fps s
      then if framerate_mode (update_framerate c s) = NDI_FRAMERATE_CUSTOM
           then (custom_fps_num (update_framerate c s), custom_fps_den (update_framerate c s))
           else ndi_converter_get_preset_framerate (framerate_mode (update_framerate c s))
      else (0, 0))"
  by (cases "prop_enable_custom_fps s";
      cases "(ucast (prop_framerate_mode s) :: 32 word) = NDI_FRAMERATE_CUSTOM")
     (simp_all add: update_framerate_def Let_def)

lemma update_framerate_interval:
  "target_frame_interval_ns (update_framerate c s) =
     (if enable_custom_framerate (update_framerate c s) \<and>
         0 < target_fps_num (update_framerate c s) \<and> 0 < target_fps_den (update_framerate c s)
      then frame_interval_ns (target_fps_den (update_framerate c s))
             (target_fps_num (update_framerate c s))
      else 0)"
  by (cases "prop_enable_custom_fps s";
      cases "(ucast (prop_framerate_mode s) :: 32 word) = NDI_FRAMERATE_CUSTOM")
     (simp_all add: update_framerate_def Let_def)

lemma update_framerate_interval_pos:
  "(0 < sint (target_frame_interval_ns (update_framerate c s))) =
     (enable_custom_framerate (update_framerate c s) \<and>
      0 < target_fps_num (update_framerate c s) \<and> 0 < target_fps_den (update_framerate c s) \<and>
      uint (target_fps_num (update_framerate c s)) \<le>
        1000000000 * uint (target_fps_den (update_framerate c s)))"
proof (cases "enable_custom_framerate (update_framerate c s) \<and>
    0 < target_fps_num (update_framerate c s) \<and> 0 < target_fps_den (update_framerate c s)")
  case True
  have "target_frame_interval_ns (update_framerate c s) =
      frame_interval_ns (target_fps_den (update_framerate c s))
        (target_fps_num (update_framerate c s))"
    by (subst update_framerate_interval) (simp only: True if_True simp_thms)
  with True show ?thesis by (simp add: frame_interval_ns_pos_iff)
next
  case False
  have "target_frame_interval_ns (update_framerate c s) = 0"
    by (subst update_framerate_interval) (simp only: False if_False)
  then have "\<not> 0 < sint (target_frame_interval_ns (update_framerate c s))" by simp
  with False show ?thesis by blast
qed

lemma update_framerate_interval_nonneg:
  "0 \<le> sint (target_frame_interval_ns (update_framerate c s))"
proof (cases "enable_custom_framerate (update_framerate c s) \<and>
    0 < target_fps_num (update_framerate c s) \<and> 0 < target_fps_den (update_framerate c s)")
  case True
  have "target_frame_interval_ns (update_framerate c s) =
      frame_interval_ns (target_fps_den (update_framerate c s))
        (target_fps_num (update_framerate c s))"
    by (subst update_framerate_interval) (simp only: True if_True simp_thms)
  with True show ?thesis by (simp add: frame_interval_ns_range(2))
next
  case False
  have "target_frame_interval_ns (update_framerate c s) = 0"
    by (subst update_framerate_interval) (simp only: False if_False)
  then show ?thesis by simp
qed

lemma update_framerate_other_fields:
  "custom_width (update_framerate c s) = custom_width c"
  "custom_height (update_framerate c s) = custom_height c"
  "target_width (update_framerate c s) = target_width c"
  "target_height (update_framerate c s) = target_height c"
  "enable_custom_resolution (update_framerate c s) = enable_custom_resolution c"
  "resolution_mode (update_framerate c s) = resolution_mode c"
  "crop_left (update_framerate c s) = crop_left c"
  "crop_top (update_framerate c s) = crop_top c"
  by (simp_all add: update_framerate_def Let_def)

lemma update_crop_other_fields:
  "custom_width (update_crop c s) = custom_width c"
  "custom_height (update_crop c s) = custom_height c"
  "target_width (update_crop c s) = target_width c"
  "target_height (update_crop c s) = target_height c"
  "enable_custom_resolution (update_crop c s) = enable_custom_resolution c"
  "resolution_mode (update_crop c s) = resolution_mode c"
  by (simp_all add: update_crop_def Let_def)

text \<open>
  Claim C5, amended. \<^verbatim>\<open>ndi_converter_update\<close> is a total function of the converter and
  the settings, with no failing branch. For every input it clamps: the custom width, read
  into \<^verbatim>\<open>uint32_t\<close>, is kept when it lies in [128, 7680], becomes 128 below and 7680 above;
  the custom height likewise with [72, 4320]; the custom frame-rate numerator and
  denominator are kept unless 0, which becomes 1; crop left and top, read into
  \<^verbatim>\<open>int32_t\<close>, are kept unless negative, which becomes 0. The enable flags and modes are
  the ones of the settings. The target size is the custom size in mode Custom, the preset
  table's entry in any other mode, and (0, 0) when the custom resolution is disabled; so
  both target dimensions are positive exactly when the custom resolution is enabled and
  the stored mode is one of the four presets or Custom. The target rate is resolved the
  same way, and the target interval is the \<^verbatim>\<open>double\<close> quotient cast to \<^verbatim>\<open>int64_t\<close> when
  the frame rate is enabled with positive numerator and denominator, and 0 otherwise. It
  is never negative (so the cast never leaves the range of \<^verbatim>\<open>int64_t\<close>), and it is
  positive exactly when the frame rate is enabled, the resolved numerator and
  denominator are positive, and the numerator is at most \<open>10\<^sup>9\<close> times the denominator:
  above that rate the quotient is below 1 and the cast truncates it to 0.
\<close>

theorem update_clamps_and_targets:
  fixes c s
  defines "c' \<equiv> ndi_converter_update c s"
  shows
    "(custom_width c' =
        (if (ucast (prop_custom_width s) :: u32) < 128 then 128
         else if 7680 < (ucast (prop_custom_width s) :: u32) then 7680
         else ucast (prop_custom_width s)) \<and>
      custom_height c' =
        (if (ucast (prop_custom_height s) :: u32) < 72 then 72
         else if 4320 < (ucast (prop_custom_height s) :: u32) then 4320
         else ucast (prop_custom_height s)) \<and>
      128 \<le> custom_width c' \<and> custom_width c' \<le> 7680 \<and>
      72 \<le> custom_height c' \<and> custom_height c' \<le> 4320) \<and>
     (custom_fps_num c' =
        (if (ucast (prop_custom_fps_num s) :: u32) < 1 then 1 else ucast (prop_custom_fps_num s)) \<and>
      custom_fps_den c' =
        (if (ucast (prop_custom_fps_den s) :: u32) < 1 then 1 else ucast (prop_custom_fps_den s)) \<and>
      1 \<le> custom_fps_num c' \<and> 1 \<le> custom_fps_den c') \<and>
     (0 \<le> sint (crop_left c') \<and> 0 \<le> sint (crop_top c') \<and>
      crop_left c' =
        (if sint (ucast (prop_crop_left s) :: i32) < 0 then 0 else ucast (prop_crop_left s)) \<and>
      crop_top c' =
        (if sint (ucast (prop_crop_top s) :: i32) < 0 then 0 else ucast (prop_crop_top s))) \<and>
     (enable_custom_resolution c' = prop_enable_custom_res s \<and>
      resolution_mode c' = ucast (prop_resolution_mode s) \<and>
      (target_width c', target_height c') =
        (if prop_enable_custom_res s
         then if resolution_mode c' = NDI_RESOLUTION_CUSTOM
              then (custom_width c', custom_height c')
              else ndi_converter_get_preset_resolution (resolution_mode c')
         else (0, 0))) \<and>
     ((0 < target_width c' \<and> 0 < target_height c') =
      (enable_custom_resolution c' \<and>
       (resolution_mode c' = NDI_RESOLUTION_720P \<or> resolution_mode c' = NDI_RESOLUTION_1080P \<or>
        resolution_mode c' = NDI_RESOLUTION_1440P \<or> resolution_mode c' = NDI_RESOLUTION_4K \<or>
        resolution_mode c' = NDI_RESOLUTION_CUSTOM))) \<and>
     (enable_custom_framerate c' = prop_enable_custom_fps s \<and>
      framerate_mode c' = ucast (prop_framerate_mode s) \<and>
      (target_fps_num c', target_fps_den c') =
        (if prop_enable_custom_fps s
         then if framerate_mode c' = NDI_FRAMERATE_CUSTOM
              then (custom_fps_num c', custom_fps_den c')
              else ndi_converter_get_preset_framerate (framerate_mode c')
         else (0, 0)) \<and>
      target_frame_interval_ns c' =
        (if enable_custom_framerate c' \<and> 0 < target_fps_num c' \<and> 0 < target_fps_den c'
         then frame_interval_ns (target_fps_den c') (target_fps_num c')
         else 0)) \<and>
     0 \<le> sint (target_frame_interval_ns c') \<and>
     ((0 < sint (target_frame_interval_ns c')) =
      (enable_custom_framerate c' \<and> 0 < target_fps_num c' \<and> 0 < target_fps_den c' \<and>
       uint (target_fps_num c') \<le> 1000000000 * uint (target_fps_den c')))"
proof -
  define r where "r = update_resolution c s"
  define k where "k = update_crop r s"
  have c': "c' = update_framerate k s"
    by (simp add: c'_def ndi_converter_update_def k_def r_def)
  have through:
    "custom_width c' = custom_width r" "custom_height c' = custom_height r"
    "target_width c' = target_width r" "target_height c' = target_height r"
    "enable_custom_resolution c' = enable_custom_resolution r"
    "resolution_mode c' = resolution_mode r"
    "crop_left c' = crop_left k" "crop_top c' = crop_top k"
    by (simp_all only: c' k_def update_framerate_other_fields update_crop_other_fields)
  have size: "custom_width c' =
        (if (ucast (prop_custom_width s) :: u32) < 128 then 128
         else if 7680 < (ucast (prop_custom_width s) :: u32) then 7680
         else ucast (prop_custom_width s)) \<and>
      custom_height c' =
        (if (ucast (prop_custom_height s) :: u32) < 72 then 72
         else if 4320 < (ucast (prop_custom_height s) :: u32) then 4320
         else ucast (prop_custom_height s)) \<and>
      128 \<le> custom_width c' \<and> custom_width c' \<le> 7680 \<and>
      72 \<le> custom_height c' \<and> custom_height c' \<le> 4320"
    unfolding through r_def
    using update_resolution_custom_size [of c s] update_resolution_clamps [of c s]
    by blast
  have rate: "custom_fps_num c' =
        (if (ucast (prop_custom_fps_num s) :: u32) < 1 then 1 else ucast (prop_custom_fps_num s)) \<and>
      custom_fps_den c' =
        (if (ucast (prop_custom_fps_den s) :: u32) < 1 then 1 else ucast (prop_custom_fps_den s)) \<and>
      1 \<le> custom_fps_num c' \<and> 1 \<le> custom_fps_den c'"
    unfolding c'
    using update_framerate_custom_rate [of k s] update_framerate_clamps [of k s]
    by blast
  have crop: "0 \<le> sint (crop_left c') \<and> 0 \<le> sint (crop_top c') \<and>
      crop_left c' =
        (if sint (ucast (prop_crop_left s) :: i32) < 0 then 0 else ucast (prop_crop_left s)) \<and>
      crop_top c' =
        (if sint (ucast (prop_crop_top s) :: i32) < 0 then 0 else ucast (prop_crop_top s))"
    unfolding through k_def by (rule update_crop_clamps)
  have target: "enable_custom_resolution c' = prop_enable_custom_res s \<and>
      resolution_mode c' = ucast (prop_resolution_mode s) \<and>
      (target_width c', target_height c') =
        (if prop_enable_custom_res s
         then if resolution_mode c' = NDI_RESOLUTION_CUSTOM
              then (custom_width c', custom_height c')
              else ndi_converter_get_preset_resolution (resolution_mode c')
         else (0, 0))"
    unfolding through r_def by (rule update_resolution_target_eq)
  have target_pos: "(0 < target_width c' \<and> 0 < target_height c') =
      (enable_custom_resolution c' \<and>
       (resolution_mode c' = NDI_RESOLUTION_720P \<or> resolution_mode c' = NDI_RESOLUTION_1080P \<or>
        resolution_mode c' = NDI_RESOLUTION_1440P \<or> resolution_mode c' = NDI_RESOLUTION_4K \<or>
        resolution_mode c' = NDI_RESOLUTION_CUSTOM))"
    unfolding through r_def by (rule update_resolution_target)
  have fps: "enable_custom_framerate c' = prop_enable_custom_fps s \<and>
      framerate_mode c' = ucast (prop_framerate_mode s) \<and>
      (target_fps_num c', target_fps_den c') =
        (if prop_enable_custom_fps s
         then if framerate_mode c' = NDI_FRAMERATE_CUSTOM
              then (custom_fps_num c', custom_fps_den c')
              else ndi_converter_get_preset_framerate (framerate_mode c')
         else (0, 0)) \<and>
      target_frame_interval_ns c' =
        (if enable_custom_framerate c' \<and> 0 < target_fps_num c' \<and> 0 < target_fps_den c'
         then frame_interval_ns (target_fps_den c') (target_fps_num c')
         else 0)"
    unfolding c'
    using update_framerate_target_eq [of k s] update_framerate_interval [of k s]
    by blast
  have nonneg: "0 \<le> sint (target_frame_interval_ns c')"
    unfolding c' by (rule update_framerate_interval_nonneg)
  have pos: "(0 < sint (target_frame_interval_ns c')) =
      (enable_custom_framerate c' \<and> 0 < target_fps_num c' \<and> 0 < target_fps_den c' \<and>
       uint (target_fps_num c') \<le> 1000000000 * uint (target_fps_den c'))"
    unfolding c' by (rule update_framerate_interval_pos)
  show ?thesis
    by (rule conjI [OF size conjI [OF rate conjI [OF crop conjI [OF target
          conjI [OF target_pos conjI [OF fps conjI [OF nonneg pos]]]]]]])
qed

text \<open>
  The statement of C5 at settings with every clamped number out of range: the size
  100000x10 becomes 7680x72, the rate 0/0 becomes 1/1, the crop offsets -5 and -7 become
  0; and at the 29.97 fps settings, where the interval is positive.
\<close>

theorem update_clamps_and_targets_witness:
  "custom_width (ndi_converter_update ndi_converter_init out_of_range_settings) = 7680 \<and>
   custom_height (ndi_converter_update ndi_converter_init out_of_range_settings) = 72 \<and>
   custom_fps_num (ndi_converter_update ndi_converter_init out_of_range_settings) = 1 \<and>
   custom_fps_den (ndi_converter_update ndi_converter_init out_of_range_settings) = 1 \<and>
   crop_left (ndi_converter_update ndi_converter_init out_of_range_settings) = 0 \<and>
   crop_top (ndi_converter_update ndi_converter_init out_of_range_settings) = 0 \<and>
   (target_width (ndi_converter_update ndi_converter_init out_of_range_settings),
    target_height (ndi_converter_update ndi_converter_init out_of_range_settings)) = (0, 0) \<and>
   custom_width ntsc_converter = 1920 \<and> custom_height ntsc_converter = 1080 \<and>
   enable_custom_framerate ntsc_converter \<and>
   (target_fps_num ntsc_converter, target_fps_den ntsc_converter) = (30000, 1001) \<and>
   0 < sint (target_frame_interval_ns ntsc_converter)"
proof -
  have neg: "(ucast (- 5 :: i64) :: i32) = - 5" "(ucast (- 7 :: i64) :: i32) = - 7"
    by (simp_all add: word_eq_iff_unsigned [where 'a = int] unsigned_ucast_eq)
  have a: "custom_width (ndi_converter_update ndi_converter_init out_of_range_settings) = 7680 \<and>
     custom_height (ndi_converter_update ndi_converter_init out_of_range_settings) = 72 \<and>
     custom_fps_num (ndi_converter_update ndi_converter_init out_of_range_settings) = 1 \<and>
     custom_fps_den (ndi_converter_update ndi_converter_init out_of_range_settings) = 1 \<and>
     crop_left (ndi_converter_update ndi_converter_init out_of_range_settings) = 0 \<and>
     crop_top (ndi_converter_update ndi_converter_init out_of_range_settings) = 0 \<and>
     (target_width (ndi_converter_update ndi_converter_init out_of_range_settings),
      target_height (ndi_converter_update ndi_converter_init out_of_range_settings)) = (0, 0)"
    using update_clamps_and_targets [of ndi_converter_init out_of_range_settings]
    by (simp add: out_of_range_settings_def ndi_filter_getdefaults_def neg
        word_less_def word_le_def)
  note t = update_clamps_and_targets [of ndi_converter_init ntsc_settings,
      folded ntsc_converter_def]
  have size: "custom_width ntsc_converter = 1920 \<and> custom_height ntsc_converter = 1080"
    using t [THEN conjunct1]
    by (simp add: ntsc_settings_def ndi_filter_getdefaults_def word_less_def)
  have "(0 < sint (target_frame_interval_ns ntsc_converter)) =
      (enable_custom_framerate ntsc_converter \<and> 0 < target_fps_num ntsc_converter \<and>
       0 < target_fps_den ntsc_converter \<and>
       uint (target_fps_num ntsc_converter) \<le> 1000000000 * uint (target_fps_den ntsc_converter))"
    by (rule t [THEN conjunct2, THEN conjunct2, THEN conjunct2, THEN conjunct2,
          THEN conjunct2, THEN conjunct2, THEN conjunct2])
  then have pos: "0 < sint (target_frame_interval_ns ntsc_converter)"
    by (simp add: ntsc_converter_fields)
  have b: "custom_width ntsc_converter = 1920 \<and> custom_height ntsc_converter = 1080 \<and>
     enable_custom_framerate ntsc_converter \<and>
     (target_fps_num ntsc_converter, target_fps_den ntsc_converter) = (30000, 1001) \<and>
     0 < sint (target_frame_interval_ns ntsc_converter)"
    using size pos by (simp add: ntsc_converter_fields)
  from a b show ?thesis by blast
qed

lemma gigahertz_fields:
  "enable_custom_framerate (ndi_converter_update ndi_converter_init gigahertz_settings)"
  "target_fps_num (ndi_converter_update ndi_converter_init gigahertz_settings) = 2000000000"
  "target_fps_den (ndi_converter_update ndi_converter_init gigahertz_settings) = 1"
  by (simp_all add: gigahertz_settings_def ndi_filter_getdefaults_def update_defs
      Let_def mode_defs)

lemma gigahertz_interval:
  "target_frame_interval_ns (ndi_converter_update ndi_converter_init gigahertz_settings) = 0"
proof -
  have "sint (frame_interval_ns 1 2000000000) = 0"
    by (subst frame_interval_ns_small) simp_all
  then have "frame_interval_ns 1 2000000000 = 0"
    by (intro signed_word_eqI) simp
  then show ?thesis
    by (simp add: gigahertz_settings_def ndi_filter_getdefaults_def update_defs
      Let_def mode_defs)
qed

text \<open>
  Claim C5 as stated fails for a custom rate of 2000000000/1: the frame rate is enabled
  and both resolved terms are positive, yet the target interval is 0.
\<close>

theorem update_interval_zero_counterexample:
  "enable_custom_framerate (ndi_converter_update ndi_converter_init gigahertz_settings) \<and>
   0 < target_fps_num (ndi_converter_update ndi_converter_init gigahertz_settings) \<and>
   0 < target_fps_den (ndi_converter_update ndi_converter_init gigahertz_settings) \<and>
   \<not> 0 < sint (target_frame_interval_ns
              (ndi_converter_update ndi_converter_init gigahertz_settings))"
  by (simp add: gigahertz_fields gigahertz_interval)

text \<open>
  Claim C2, amended. When the frame rate is enabled and the resolved numerator and
  denominator are positive, with the denominator at most 9007199 (so that
  \<open>10\<^sup>9 \<times> den\<close> is below \<open>2\<^sup>5\<^sup>3\<close>), the update sets the target interval to
  \<open>10\<^sup>9 \<times> den / num\<close> truncated to an integer, not rounded to the nearest one.
\<close>

theorem update_interval_truncates:
  fixes c s
  defines "c' \<equiv> ndi_converter_update c s"
  assumes enabled: "prop_enable_custom_fps s"
    and num: "0 < target_fps_num c'" and den: "0 < target_fps_den c'"
    and small: "uint (target_fps_den c') \<le> 9007199"
  shows "sint (target_frame_interval_ns c') =
           (1000000000 * uint (target_fps_den c')) div uint (target_fps_num c')"
proof -
  have en: "enable_custom_framerate c'"
    using enabled by (simp add: c'_def update_defs Let_def)
  have "target_frame_interval_ns c' = frame_interval_ns (target_fps_den c') (target_fps_num c')"
    unfolding c'_def ndi_converter_update_def
    using en num den unfolding c'_def ndi_converter_update_def
    by (subst update_framerate_interval) simp
  moreover have "1000000000 * uint (target_fps_den c') < 2 ^ 53" using small by simp
  ultimately show ?thesis
    using num den by (simp add: frame_interval_ns_small)
qed

text \<open>For the 29.97 fps preset, 30000/1001, the interval is 33366666.\<close>

theorem update_interval_truncates_witness:
  "prop_enable_custom_fps ntsc_settings \<and> target_fps_num ntsc_converter = 30000 \<and>
   target_fps_den ntsc_converter = 1001 \<and>
   sint (target_frame_interval_ns ntsc_converter) = 33366666"
proof -
  have e: "prop_enable_custom_fps ntsc_settings"
    by (simp add: ntsc_settings_def)
  have n: "0 < target_fps_num (ndi_converter_update ndi_converter_init ntsc_settings)"
   and d: "0 < target_fps_den (ndi_converter_update ndi_converter_init ntsc_settings)"
   and s: "uint (target_fps_den (ndi_converter_update ndi_converter_init ntsc_settings)) \<le> 9007199"
    using ntsc_converter_fields by (simp_all add: ntsc_converter_def)
  show ?thesis
    using update_interval_truncates [OF e n d s] e ntsc_converter_fields
    by (simp add: ntsc_converter_def [symmetric])
qed

text \<open>
  Claim C2 as stated fails at 30000/1001: the nearest integer to
  \<open>10\<^sup>9 \<times> 1001 / 30000 = 33366666.67\<close> is 33366667, and the update stores 33366666.
\<close>

theorem update_interval_ntsc_counterexample:
  "enable_custom_framerate ntsc_converter \<and> target_fps_num ntsc_converter = 30000 \<and>
   target_fps_den ntsc_converter = 1001 \<and>
   round (1000000000 * 1001 / 30000 :: rat) = 33366667 \<and>
   target_frame_interval_ns ntsc_converter = 33366666 \<and>
   target_frame_interval_ns ntsc_converter \<noteq> 33366667"
proof -
  have "\<lfloor>(200200003 / 6 :: rat)\<rfloor> = 33366667"
    by (rule floor_unique) simp_all
  then have "round (1000000000 * 1001 / 30000 :: rat) = 33366667"
    by (simp add: round_def)
  then show ?thesis by (simp add: ntsc_converter_fields ntsc_interval)
qed

text \<open>
  Claim C9, amended. An update whose settings enable the frame rate resets the
  accumulator and the last timestamp to 0, from every prior state and whether or not
  the frame-rate settings changed; an update whose settings disable it leaves both as
  they were.
\<close>

theorem update_resets_pacing_iff_enabled:
  "accumulator_ns (ndi_converter_update c s) =
     (if prop_enable_custom_fps s then 0 else accumulator_ns c) \<and>
   last_frame_timestamp (ndi_converter_update c s) =
     (if prop_enable_custom_fps s then 0 else last_frame_timestamp c)"
  by (simp add: update_defs Let_def)

lemma paced_converter_fields:
  "accumulator_ns paced_converter = 33333333"
  "last_frame_timestamp paced_converter = 33333433"
  "enable_custom_framerate paced_converter"
  by (simp_all add: paced_converter_def ntsc_converter_fields)

text \<open>The enabled case of C9, on a converter in the middle of a stream.\<close>

theorem update_resets_pacing_iff_enabled_witness:
  "prop_enable_custom_fps ntsc_settings \<and>
   accumulator_ns (ndi_converter_update paced_converter ntsc_settings) = 0 \<and>
   last_frame_timestamp (ndi_converter_update paced_converter ntsc_settings) = 0"
  using update_resets_pacing_iff_enabled [of paced_converter ntsc_settings]
  by (simp add: ntsc_settings_def)

text \<open>
  Claim C9 as stated fails for the update that disables the frame rate: the accumulator
  and the last timestamp of the running converter survive it.
\<close>

theorem update_keeps_pacing_when_disabling_counterexample:
  "enable_custom_framerate paced_converter \<and>
   \<not> enable_custom_framerate (ndi_converter_update paced_converter ndi_filter_getdefaults) \<and>
   accumulator_ns (ndi_converter_update paced_converter ndi_filter_getdefaults) = 33333333 \<and>
   last_frame_timestamp (ndi_converter_update paced_converter ndi_filter_getdefaults) = 33333433"
  by (simp add: paced_converter_fields update_defs Let_def ndi_filter_getdefaults_def)


section \<open>The frame-rate gate\<close>

lemma sint_sub_64:
  fixes a b :: "64 word"
  assumes "- (2 ^ 63) \<le> sint a - sint b" "sint a - sint b < 2 ^ 63"
  shows "sint (a - b) = sint a - sint b"
proof -
  have "a - b = word_of_int (sint a - sint b)" by simp
  then show ?thesis using assms by (simp only: sint_of_int_64)
qed

lemma sint_add_64:
  fixes a b :: "64 word"
  assumes "- (2 ^ 63) \<le> sint a + sint b" "sint a + sint b < 2 ^ 63"
  shows "sint (a + b) = sint a + sint b"
proof -
  have "a + b = word_of_int (sint a + sint b)" by simp
  then show ?thesis using assms by (simp only: sint_of_int_64)
qed

lemma sint_eq_uint_64:
  fixes w :: "64 word"
  assumes "uint w < 2 ^ 63"
  shows "sint w = uint w"
proof -
  have "w = word_of_int (uint w)" by simp
  then have "sint w = sint (word_of_int (uint w) :: 64 word)" by simp
  also have "\<dots> = uint w"
  proof (rule sint_of_int_64)
    have "0 \<le> uint w" by simp
    then show "- (2 ^ 63) \<le> uint w" by (rule order_trans [rotated]) simp
    show "uint w < 2 ^ 63" by (rule assms)
  qed
  finally show ?thesis .
qed

lemma send_count_loop_closed:
  assumes T: "0 < sint T" and a: "0 \<le> sint acc"
  shows "send_count_loop acc T n =
           Some (n + word_of_int (sint acc div sint T), word_of_int (sint acc mod sint T))"
  using a
proof (induction "nat (sint acc)" arbitrary: acc n rule: less_induct)
  case less
  show ?case
  proof (cases "sint T \<le> sint acc")
    case False
    then have "sint acc div sint T = 0" "sint acc mod sint T = sint acc"
      using less.prems by simp_all
    then show ?thesis using False by (subst send_count_loop.simps) simp
  next
    case True
    have lt: "sint acc < 2 ^ 63" using sint_lt [of acc] by simp
    have s: "sint (acc - T) = sint acc - sint T"
      using True T lt by (intro sint_sub_64) simp_all
    have "nat (sint (acc - T)) < nat (sint acc)" using s True T by simp
    moreover have "0 \<le> sint (acc - T)" using s True by simp
    ultimately have IH: "send_count_loop (acc - T) T (n + 1) =
        Some (n + 1 + word_of_int (sint (acc - T) div sint T),
              word_of_int (sint (acc - T) mod sint T))"
      by (rule less.hyps)
    have "sint acc = (sint acc - sint T) + 1 * sint T" by simp
    then have "sint acc div sint T = (sint acc - sint T) div sint T + 1"
      using T div_mult_self1 [of "sint T" "sint acc - sint T" 1] by simp
    then have d: "(sint acc - sint T) div sint T = sint acc div sint T - 1" by simp
    have m: "(sint acc - sint T) mod sint T = sint acc mod sint T"
      by simp
    show ?thesis
      using True by (subst send_count_loop.simps) (simp add: IH s d m)
  qed
qed


text \<open>One call with the frame rate enabled, inside the range of the machine integers.\<close>

lemma should_send_frame_step:
  fixes c ts
  defines "T \<equiv> sint (target_frame_interval_ns c)"
    and "gap \<equiv> (if last_frame_timestamp c = 0 then 0
                  else uint ts - uint (last_frame_timestamp c))"
  assumes en: "enable_custom_framerate c"
    and T: "0 < T"
    and acc: "0 \<le> sint (accumulator_ns c)"
    and mono: "last_frame_timestamp c \<le> ts"
    and sum: "sint (accumulator_ns c) + gap < 2 ^ 63"
    and cnt: "(sint (accumulator_ns c) + gap) div T < 2 ^ 31"
  shows "ndi_converter_should_send_frame c ts =
           Some (0 < (sint (accumulator_ns c) + gap) div T,
                 word_of_int ((sint (accumulator_ns c) + gap) div T),
                 c\<lparr> accumulator_ns := word_of_int ((sint (accumulator_ns c) + gap) mod T),
                    last_frame_timestamp := ts \<rparr>)"
proof -
  define delta :: i64 where
    "delta = (if 0 < last_frame_timestamp c then ts - last_frame_timestamp c else 0)"
  have T0: "target_frame_interval_ns c \<noteq> 0" using T unfolding T_def by auto
  have gap0: "0 \<le> gap" using mono by (simp add: gap_def word_le_def)
  have "uint delta = gap"
    using mono by (auto simp: delta_def gap_def word_neq_0_conv uint_sub_lem [symmetric] word_le_def)
  moreover have "gap < 2 ^ 63" using sum acc by linarith
  ultimately have sd: "sint delta = gap" by (simp add: sint_eq_uint_64)
  have sa: "sint (accumulator_ns c + delta) = sint (accumulator_ns c) + gap"
    using acc gap0 sum by (subst sint_add_64) (simp_all add: sd)
  define a where "a = sint (accumulator_ns c) + gap"
  have a0: "0 \<le> a" using acc gap0 by (simp add: a_def)
  have q0: "0 \<le> a div T" using a0 T by (simp add: pos_imp_zdiv_nonneg_iff)
  have loop: "send_count_loop (accumulator_ns c + delta) (target_frame_interval_ns c) 0 =
      Some (word_of_int (a div T), word_of_int (a mod T))"
    using T a0 by (subst send_count_loop_closed) (simp_all add: sa T_def a_def)
  have sq: "sint (word_of_int (a div T) :: i32) = a div T"
    using q0 cnt by (intro sint_of_int_32) (simp_all add: a_def)
  show ?thesis
    using en T0 loop sq
    by (simp add: ndi_converter_should_send_frame_def Let_def delta_def [symmetric] a_def [symmetric])
qed


text \<open>
  Claim C4, amended. Take a call of \<^verbatim>\<open>ndi_converter_should_send_frame\<close> with the frame
  rate enabled, a positive target interval \<open>T\<close>, a non-negative accumulator (every
  update and every call leaves it so) and a timestamp not below the previous one. Let
  \<open>delta\<close> be the timestamp minus the previous one, or 0 when the previous one is the 0
  sentinel, and suppose the accumulator plus \<open>delta\<close> is below \<open>2\<^sup>6\<^sup>3\<close> and its
  quotient by \<open>T\<close> below \<open>2\<^sup>3\<^sup>1\<close>, the ranges of the \<^verbatim>\<open>int64_t\<close> accumulator and of the
  \<^verbatim>\<open>int\<close> count. Then the call returns, its count is \<open>\<lfloor>(accumulator + delta) / T\<rfloor>\<close>, it
  reports ``send'' exactly when the count is positive, it leaves the accumulator at the
  remainder, which lies in \<open>[0, T)\<close>, and stores the timestamp; and the first call after
  a reset (previous timestamp 0, accumulator 0) has count 0.
\<close>

theorem should_send_frame_paces:
  fixes c ts
  defines "T \<equiv> sint (target_frame_interval_ns c)"
    and "delta \<equiv> (if last_frame_timestamp c = 0 then 0
                    else uint ts - uint (last_frame_timestamp c))"
  defines "elapsed \<equiv> sint (accumulator_ns c) + delta"
  assumes en: "enable_custom_framerate c"
    and T: "0 < T"
    and acc: "0 \<le> sint (accumulator_ns c)"
    and mono: "last_frame_timestamp c \<le> ts"
    and sum: "elapsed < 2 ^ 63"
    and cnt: "elapsed div T < 2 ^ 31"
  shows "ndi_converter_should_send_frame c ts =
           Some (0 < elapsed div T, word_of_int (elapsed div T),
                 c\<lparr> accumulator_ns := word_of_int (elapsed mod T),
                    last_frame_timestamp := ts \<rparr>) \<and>
         sint (word_of_int (elapsed div T) :: i32) = elapsed div T \<and>
         sint (word_of_int (elapsed mod T) :: i64) = elapsed mod T \<and>
         0 \<le> elapsed mod T \<and> elapsed mod T < T \<and>
         (last_frame_timestamp c = 0 \<and> accumulator_ns c = 0 \<longrightarrow> elapsed div T = 0)"
proof -
  have d0: "0 \<le> delta"
    using mono by (simp add: delta_def word_le_def)
  have t0: "0 \<le> elapsed" using d0 acc by (simp add: elapsed_def)
  have q: "0 \<le> elapsed div T" using t0 T by (simp add: pos_imp_zdiv_nonneg_iff)
  have r: "0 \<le> elapsed mod T" "elapsed mod T < T" using T by simp_all
  have "elapsed mod T < 2 ^ 63"
  proof -
    have "T < 2 ^ 63" using sint_lt [of "target_frame_interval_ns c"] by (simp add: T_def)
    with r(2) show ?thesis by linarith
  qed
  then have sr: "sint (word_of_int (elapsed mod T) :: i64) = elapsed mod T"
    using r(1) by (intro sint_of_int_64) simp_all
  have sq: "sint (word_of_int (elapsed div T) :: i32) = elapsed div T"
    using q cnt by (intro sint_of_int_32) simp_all
  have first: "last_frame_timestamp c = 0 \<and> accumulator_ns c = 0 \<longrightarrow> elapsed div T = 0"
    by (simp add: elapsed_def delta_def)
  have "ndi_converter_should_send_frame c ts =
      Some (0 < elapsed div T, word_of_int (elapsed div T),
            c\<lparr> accumulator_ns := word_of_int (elapsed mod T), last_frame_timestamp := ts \<rparr>)"
    unfolding elapsed_def delta_def T_def
    using en T acc mono sum cnt unfolding elapsed_def delta_def T_def
    by (rule should_send_frame_step)
  with sq sr r first show ?thesis by blast
qed

lemma paced_interval: "target_frame_interval_ns paced_converter = 33366666"
  by (simp add: paced_converter_def ntsc_interval)

text \<open>The statement of C4 on the 29.97 fps converter, one frame interval after the last frame.\<close>

theorem should_send_frame_paces_witness:
  "enable_custom_framerate paced_converter \<and>
   0 < sint (target_frame_interval_ns paced_converter) \<and>
   0 \<le> sint (accumulator_ns paced_converter) \<and>
   last_frame_timestamp paced_converter \<le> 66666766 \<and>
   ndi_converter_should_send_frame paced_converter 66666766 =
     Some (True, 1, paced_converter\<lparr> accumulator_ns := 33300000,
                      last_frame_timestamp := 66666766 \<rparr>)"
  using should_send_frame_paces [of paced_converter 66666766]
  by (simp add: paced_converter_fields paced_interval)


lemma started_converter_fields:
  "enable_custom_framerate started_converter"
  "target_frame_interval_ns started_converter = 33366666"
  "accumulator_ns started_converter = 0"
  "last_frame_timestamp started_converter = 1"
  by (simp_all add: started_converter_def ntsc_converter_fields ntsc_interval)

text \<open>
  Claim C4 as stated fails for a timestamp \<open>2\<^sup>6\<^sup>3\<close> ns after the previous one: the
  timestamps do not decrease, but the difference read as \<^verbatim>\<open>int64_t\<close> is negative, the count
  is 0 instead of the quotient 276424741892, and the accumulator is left negative.
\<close>

theorem should_send_frame_wraps_counterexample:
  "enable_custom_framerate started_converter \<and>
   0 < sint (target_frame_interval_ns started_converter) \<and>
   accumulator_ns started_converter = 0 \<and>
   last_frame_timestamp started_converter \<le> 9223372036854775809 \<and>
   ndi_converter_should_send_frame started_converter 9223372036854775809 =
     Some (False, 0, started_converter\<lparr> accumulator_ns := 9223372036854775808,
                       last_frame_timestamp := 9223372036854775809 \<rparr>) \<and>
   (sint (accumulator_ns started_converter) +
      (uint (9223372036854775809 :: u64) - uint (last_frame_timestamp started_converter)))
     div sint (target_frame_interval_ns started_converter) = 276424741892 \<and>
   sint (9223372036854775808 :: i64) < 0"
proof -
  have loop: "send_count_loop 9223372036854775808 33366666 0 = Some (0, 9223372036854775808)"
    by (subst send_count_loop.simps) simp
  show ?thesis
    by (simp add: started_converter_fields ndi_converter_should_send_frame_def Let_def loop)
qed


lemma div_split_sum:
  fixes x y T :: int
  assumes "0 < T"
  shows "x div T + (x mod T + y) div T = (x + y) div T"
proof -
  have "x + y = (x mod T + y) + (x div T) * T" by simp
  then have "(x + y) div T = ((x mod T + y) + (x div T) * T) div T" by simp
  also have "\<dots> = (x mod T + y) div T + x div T"
    using assms by (subst div_mult_self1) simp_all
  finally show ?thesis by simp
qed

text \<open>
  Evenly spaced frames after a first one: the counts add up to the number of whole
  intervals in the accumulated time.
\<close>

lemma should_send_frames_spaced:
  assumes en: "enable_custom_framerate c"
    and T: "0 < sint (target_frame_interval_ns c)"
    and acc: "0 \<le> sint (accumulator_ns c)"
    and accT: "sint (accumulator_ns c) < sint (target_frame_interval_ns c)"
    and last: "0 < last_frame_timestamp c"
    and nowrap: "uint (last_frame_timestamp c) + int n * uint d < 2 ^ 64"
    and sum: "sint (accumulator_ns c) + int n * uint d < 2 ^ 63"
    and cnt: "(sint (accumulator_ns c) + int n * uint d) div sint (target_frame_interval_ns c) < 2 ^ 31"
  shows "\<exists>ns c'. should_send_frames c (frame_times (last_frame_timestamp c + d) d n) = Some (ns, c') \<and>
           sum_list (map sint ns) =
             (sint (accumulator_ns c) + int n * uint d) div sint (target_frame_interval_ns c)"
  using assms
proof (induction n arbitrary: c)
  case 0
  then show ?case by simp
next
  case (Suc n)
  define T where "T = sint (target_frame_interval_ns c)"
  define a where "a = sint (accumulator_ns c)"
  define ts where "ts = last_frame_timestamp c + d"
  have T0: "0 < T" using Suc.prems(2) by (simp add: T_def)
  have a0: "0 \<le> a" using Suc.prems(3) by (simp add: a_def)
  have d0: "0 \<le> uint d" by simp
  have nd0: "0 \<le> int n * uint d" by simp
  have l0: "0 < uint (last_frame_timestamp c)" using Suc.prems(5) by (simp add: word_less_def)
  have nowrap: "uint (last_frame_timestamp c) + uint d + int n * uint d < 2 ^ 64"
    using Suc.prems(6) by (simp add: algebra_simps)
  have sum: "a + uint d + int n * uint d < 2 ^ 63"
    using Suc.prems(7) by (simp add: algebra_simps a_def)
  have cnt: "(a + uint d + int n * uint d) div T < 2 ^ 31"
    using Suc.prems(8) by (simp add: algebra_simps a_def T_def)
  have "uint (last_frame_timestamp c) + uint d < 2 ^ 64" using nowrap nd0 by linarith
  then have uts: "uint ts = uint (last_frame_timestamp c) + uint d"
    unfolding ts_def using uint_add_lem [of "last_frame_timestamp c" d] by simp
  have mono: "last_frame_timestamp c \<le> ts" using uts d0 by (simp add: word_le_def)
  have lne: "last_frame_timestamp c \<noteq> 0" using Suc.prems(5) by auto
  have gap: "(if last_frame_timestamp c = 0 then 0 else uint ts - uint (last_frame_timestamp c)) = uint d"
    using lne uts by simp
  have s1: "a + uint d < 2 ^ 63" using sum nd0 by linarith
  have "(a + uint d) div T \<le> (a + uint d + int n * uint d) div T"
    using T0 nd0 by (intro zdiv_mono1) simp_all
  then have c1: "(a + uint d) div T < 2 ^ 31" using cnt by linarith
  have step: "ndi_converter_should_send_frame c ts =
      Some (0 < (a + uint d) div T, word_of_int ((a + uint d) div T),
            c\<lparr> accumulator_ns := word_of_int ((a + uint d) mod T), last_frame_timestamp := ts \<rparr>)"
    using should_send_frame_step [of c ts] Suc.prems(1) T0 a0 mono s1 c1
    by (simp only: gap T_def a_def) 
  define c1 where
    "c1 = c\<lparr> accumulator_ns := word_of_int ((a + uint d) mod T), last_frame_timestamp := ts \<rparr>"
  have r0: "0 \<le> (a + uint d) mod T" and rT: "(a + uint d) mod T < T" using T0 by simp_all
  have rle: "(a + uint d) mod T \<le> a + uint d"
    using a0 d0 T0 by (intro zmod_le_nonneg_dividend) simp
  have "(a + uint d) mod T < 2 ^ 63" using rle s1 by linarith
  then have acc1: "sint (accumulator_ns c1) = (a + uint d) mod T"
    using r0 by (simp add: c1_def sint_of_int_64)
  have q0: "0 \<le> (a + uint d) div T" using a0 d0 T0 by (simp add: pos_imp_zdiv_nonneg_iff)
  have sq: "sint (word_of_int ((a + uint d) div T) :: i32) = (a + uint d) div T"
    using q0 c1 by (intro sint_of_int_32) simp_all
  have T1: "sint (target_frame_interval_ns c1) = T" by (simp add: c1_def T_def)
  have last1: "last_frame_timestamp c1 = ts" by (simp add: c1_def)
  have "\<exists>ns c'. should_send_frames c1 (frame_times (last_frame_timestamp c1 + d) d n) = Some (ns, c') \<and>
      sum_list (map sint ns) =
        (sint (accumulator_ns c1) + int n * uint d) div sint (target_frame_interval_ns c1)"
  proof (rule Suc.IH)
    show "enable_custom_framerate c1" using Suc.prems(1) by (simp add: c1_def)
    show "0 < sint (target_frame_interval_ns c1)" using T0 T1 by simp
    show "0 \<le> sint (accumulator_ns c1)" using acc1 r0 by simp
    show "sint (accumulator_ns c1) < sint (target_frame_interval_ns c1)"
      using acc1 rT T1 by simp
    have "0 < uint ts" using l0 d0 uts by linarith
    then show "0 < last_frame_timestamp c1" by (simp add: last1 word_less_def)
    show "uint (last_frame_timestamp c1) + int n * uint d < 2 ^ 64"
      using nowrap uts by (simp add: last1)
    show "sint (accumulator_ns c1) + int n * uint d < 2 ^ 63"
      using rle sum by (simp add: acc1)
    have "((a + uint d) mod T + int n * uint d) div T \<le> (a + uint d + int n * uint d) div T"
      using T0 rle by (intro zdiv_mono1) simp_all
    then show "(sint (accumulator_ns c1) + int n * uint d) div sint (target_frame_interval_ns c1) < 2 ^ 31"
      using cnt by (simp add: acc1 T1)
  qed
  then obtain ns c' where
    run: "should_send_frames c1 (frame_times (ts + d) d n) = Some (ns, c')"
    and tot: "sum_list (map sint ns) = ((a + uint d) mod T + int n * uint d) div T"
    by (auto simp: acc1 T1 last1)
  have "should_send_frames c (frame_times (last_frame_timestamp c + d) d (Suc n)) =
      Some (word_of_int ((a + uint d) div T) # ns, c')"
    using step run by (simp add: ts_def [symmetric] c1_def [symmetric])
  moreover have "sum_list (map sint (word_of_int ((a + uint d) div T) # ns)) =
      (sint (accumulator_ns c) + int (Suc n) * uint d) div sint (target_frame_interval_ns c)"
  proof -
    have "sum_list (map sint (word_of_int ((a + uint d) div T) # ns)) =
        (a + uint d) div T + ((a + uint d) mod T + int n * uint d) div T"
      by (simp add: sq tot)
    also have "\<dots> = (a + uint d + int n * uint d) div T"
      using T0 by (rule div_split_sum)
    also have "a + uint d + int n * uint d = a + int (Suc n) * uint d"
      by (simp add: algebra_simps)
    finally show ?thesis by (simp only: a_def T_def)
  qed
  ultimately show ?case by blast
qed


text \<open>
  The 29.97 fps converter, freshly updated, fed \<open>n + 1\<close> frames 33333333 ns apart from a
  first timestamp other than 0: the first call adds nothing, the others 33333333 each.
\<close>

lemma ntsc_stream_total:
  assumes t0: "0 < t0"
    and nowrap: "uint t0 + int n * 33333333 < 2 ^ 64"
    and small: "int n * 33333333 < 2 ^ 63"
    and cnt: "(int n * 33333333) div 33366666 < 2 ^ 31"
  shows "total_frames_to_send ntsc_converter (frame_times t0 33333333 (Suc n)) =
           Some ((int n * 33333333) div 33366666)"
proof -
  define c1 where "c1 = ntsc_converter\<lparr> accumulator_ns := 0, last_frame_timestamp := t0 \<rparr>"
  have first: "ndi_converter_should_send_frame ntsc_converter t0 = Some (False, 0, c1)"
    using should_send_frame_step [of ntsc_converter t0]
    by (simp add: ntsc_converter_fields ntsc_interval c1_def)
  have "\<exists>ns c'. should_send_frames c1 (frame_times (last_frame_timestamp c1 + 33333333) 33333333 n) =
        Some (ns, c') \<and>
      sum_list (map sint ns) =
        (sint (accumulator_ns c1) + int n * uint (33333333 :: u64)) div
          sint (target_frame_interval_ns c1)"
    using t0 nowrap small cnt
    by (intro should_send_frames_spaced)
       (simp_all add: c1_def ntsc_converter_fields ntsc_interval)
  then obtain ns c' where
    run: "should_send_frames c1 (frame_times (t0 + 33333333) 33333333 n) = Some (ns, c')"
    and tot: "sum_list (map sint ns) = (int n * 33333333) div 33366666"
    by (auto simp: c1_def ntsc_converter_fields ntsc_interval)
  show ?thesis
    by (simp add: total_frames_to_send_def first run tot)
qed

lemma ntsc_stream_from_zero:
  "total_frames_to_send ntsc_converter (frame_times 0 33333333 1001) = Some 998"
proof -
  have same: "ntsc_converter\<lparr> accumulator_ns := 0, last_frame_timestamp := 0 \<rparr> = ntsc_converter"
    by (rule ndi_video_converter.equality) (simp_all add: ntsc_converter_fields)
  have first: "ndi_converter_should_send_frame ntsc_converter 0 = Some (False, 0, ntsc_converter)"
    using should_send_frame_step [of ntsc_converter 0]
    by (simp add: ntsc_converter_fields ntsc_interval same)
  have rest: "total_frames_to_send ntsc_converter (frame_times 33333333 33333333 (Suc 999)) =
      Some ((int 999 * 33333333) div 33366666)"
    by (intro ntsc_stream_total) simp_all
  have "frame_times 0 33333333 1001 = 0 # frame_times 33333333 33333333 (Suc 999)"
    using frame_times.simps(2) [of 0 33333333 1000] by simp
  then have "total_frames_to_send ntsc_converter (frame_times 0 33333333 1001) =
      total_frames_to_send ntsc_converter (frame_times 33333333 33333333 (Suc 999))"
    by (simp only: total_frames_to_send_def should_send_frames.simps(2) [of _ 0] first)
      (simp split: option.splits)
  then show ?thesis using rest by simp
qed

text \<open>
  Claim C3, amended. With the frame rate enabled at 30000/1001 and the pacing state
  freshly reset, 1001 frames spaced 33333333 ns apart, the first at a timestamp other
  than 0 and the last below \<open>2\<^sup>6\<^sup>4\<close>, yield a total count of exactly 999: the first
  call has no previous frame and adds nothing, and the 1000 differences hold 999 whole
  intervals of 33366666 ns.
\<close>

theorem ntsc_stream_emits_999:
  assumes "0 < t0" and "uint t0 + 33333333000 < 2 ^ 64"
  shows "total_frames_to_send ntsc_converter (frame_times t0 33333333 1001) = Some 999"
proof -
  have "total_frames_to_send ntsc_converter (frame_times t0 33333333 (Suc 1000)) =
      Some ((int 1000 * 33333333) div 33366666)"
    using assms by (intro ntsc_stream_total) simp_all
  then show ?thesis by simp
qed

text \<open>The stream of C3 starting at 33333333 ns.\<close>

theorem ntsc_stream_emits_999_witness:
  "(0::u64) < 33333333 \<and> uint (33333333 :: u64) + 33333333000 < 2 ^ 64 \<and>
   total_frames_to_send ntsc_converter (frame_times 33333333 33333333 1001) = Some 999"
  using ntsc_stream_emits_999 [of 33333333] by simp

text \<open>
  Claim C3 as stated fails: the stream starting at 1 ns yields 999, not 1000, and the
  stream starting at 0 yields 998 (its second frame still sees the 0 sentinel).
\<close>

theorem ntsc_stream_not_1000_counterexample:
  "enable_custom_framerate ntsc_converter \<and>
   target_fps_num ntsc_converter = 30000 \<and> target_fps_den ntsc_converter = 1001 \<and>
   accumulator_ns ntsc_converter = 0 \<and> last_frame_timestamp ntsc_converter = 0 \<and>
   total_frames_to_send ntsc_converter (frame_times 1 33333333 1001) = Some 999 \<and>
   total_frames_to_send ntsc_converter (frame_times 1 33333333 1001) \<noteq> Some 1000 \<and>
   total_frames_to_send ntsc_converter (frame_times 0 33333333 1001) = Some 998"
proof -
  have "total_frames_to_send ntsc_converter (frame_times 1 33333333 (Suc 1000)) =
      Some ((int 1000 * 33333333) div 33366666)"
    by (intro ntsc_stream_total) simp_all
  then show ?thesis by (simp add: ntsc_converter_fields ntsc_stream_from_zero)
qed

text \<open>
  Claim C1 against the code. With the frame rate disabled or a target interval of 0,
  \<^verbatim>\<open>ndi_converter_should_send_frame\<close> leaves the converter as it is and returns
  \<^verbatim>\<open>true\<close>, but the count it writes to \<^verbatim>\<open>*frames_to_send\<close> is 0, not 1.
\<close>

theorem should_send_frame_without_pacing:
  assumes "\<not> enable_custom_framerate c \<or> target_frame_interval_ns c = 0"
  shows "ndi_converter_should_send_frame c ts = Some (True, 0, c)"
  using assms by (simp add: ndi_converter_should_send_frame_def)

lemma auto_rate_converter_fields:
  "enable_custom_framerate auto_rate_converter"
  "target_frame_interval_ns auto_rate_converter = 0"
  by (simp_all add: auto_rate_converter_def auto_rate_settings_def ndi_filter_getdefaults_def
      update_defs Let_def mode_defs ndi_converter_get_preset_framerate_def)

text \<open>
  The frame rate enabled in mode Auto gives an interval of 0. The call returns
  \<^verbatim>\<open>true\<close> with count 0, and \<^verbatim>\<open>ndi_filter_raw_video\<close>, which skips a frame whose
  count is 0, sends nothing.
\<close>

theorem should_send_frame_without_pacing_witness:
  "enable_custom_framerate auto_rate_converter \<and>
   target_frame_interval_ns auto_rate_converter = 0 \<and>
   ndi_converter_should_send_frame auto_rate_converter 1000 =
     Some (True, 0, auto_rate_converter) \<and>
   ndi_filter_raw_video auto_rate_filter (frame_at 1000) 1920 1080 = Some ([], auto_rate_filter)"
proof -
  have g: "ndi_converter_should_send_frame auto_rate_converter 1000 =
      Some (True, 0, auto_rate_converter)"
    using should_send_frame_without_pacing [of auto_rate_converter 1000]
    by (simp add: auto_rate_converter_fields)
  have "ndi_filter_raw_video auto_rate_filter (frame_at 1000) 1920 1080 =
      Some ([], auto_rate_filter)"
    by (simp add: ndi_filter_raw_video_def auto_rate_filter_def frame_at_def g
        auto_rate_converter_fields)
  with g show ?thesis by (simp add: auto_rate_converter_fields)
qed


section \<open>The scaler and its buffer\<close>

lemmas update_scaler_defs = ndi_converter_update_scaler_def obs_scale_type_of_def

text \<open>
  Claim C6 against the code. With scaling enabled and a scaler present, a call of
  \<^verbatim>\<open>ndi_converter_update_scaler\<close> for the source size and format the converter
  remembers returns \<^verbatim>\<open>true\<close> and changes nothing: the test for a rebuild looks at the
  source only, and the handle is reused whatever target size it was built for.
\<close>

theorem update_scaler_reuses_for_same_source:
  assumes "enable_custom_resolution c"
    and "target_width c \<noteq> 0" and "target_height c \<noteq> 0"
    and "scaler c = Some h"
    and "source_width c = source_w" and "source_height c = source_h"
    and "source_format c = source_fmt"
  shows "ndi_converter_update_scaler create_succeeds bmalloc_result c source_w source_h source_fmt =
           (True, c)"
  using assms by (simp add: ndi_converter_update_scaler_def)

lemma scaling_converter_fields:
  "enable_custom_resolution scaling_converter"
  "target_width scaling_converter = 1280"
  "target_height scaling_converter = 720"
  "scaler scaling_converter =
     Some \<lparr> dst = \<lparr> format = VIDEO_FORMAT_BGRA, width = 1280, height = 720 \<rparr>,
            src = \<lparr> format = VIDEO_FORMAT_OTHER 2, width = 1920, height = 1080 \<rparr>,
            scale_algorithm = VIDEO_SCALE_BICUBIC \<rparr>"
  "source_width scaling_converter = 1920"
  "source_height scaling_converter = 1080"
  "source_format scaling_converter = VIDEO_FORMAT_OTHER 2"
  "scaled_buffer scaling_converter = Some 4096"
  "scaled_buffer_size scaling_converter = 3686400"
  by (simp_all add: scaling_converter_def settings_720p_def ndi_filter_getdefaults_def
      update_defs update_scaler_defs Let_def mode_defs ndi_converter_get_preset_resolution_def
      ndi_converter_init_def)

lemma retargeted_converter_fields:
  "enable_custom_resolution retargeted_converter"
  "target_width retargeted_converter = 2560"
  "target_height retargeted_converter = 1440"
  "scaler retargeted_converter = scaler scaling_converter"
  "source_width retargeted_converter = 1920"
  "source_height retargeted_converter = 1080"
  "source_format retargeted_converter = VIDEO_FORMAT_OTHER 2"
  "scaled_buffer_size retargeted_converter = 3686400"
  by (simp_all add: retargeted_converter_def settings_1440p_def ndi_filter_getdefaults_def
      update_defs Let_def mode_defs ndi_converter_get_preset_resolution_def
      scaling_converter_fields)

text \<open>
  The scaler built for 1280x720 survives the move of the target to 2560x1440: the next
  call with the same source keeps it, and keeps the buffer of 1280x720x4 bytes.
\<close>

theorem update_scaler_reuses_for_same_source_witness:
  "target_width scaling_converter = 1280 \<and> target_height scaling_converter = 720 \<and>
   target_width retargeted_converter = 2560 \<and> target_height retargeted_converter = 1440 \<and>
   ndi_converter_update_scaler True 8192 retargeted_converter 1920 1080 (VIDEO_FORMAT_OTHER 2) =
     (True, retargeted_converter) \<and>
   map_option (\<lambda>h. (width (dst h), height (dst h))) (scaler retargeted_converter) =
     Some (1280, 720) \<and>
   unat (scaled_buffer_size retargeted_converter) < 2560 * 1440 * 4"
  using update_scaler_reuses_for_same_source [of retargeted_converter _ 1920 1080
      "VIDEO_FORMAT_OTHER 2" True 8192]
  by (simp add: retargeted_converter_fields scaling_converter_fields)


text \<open>The size computed in \<^verbatim>\<open>uint32_t\<close> never exceeds the product of the numbers.\<close>

lemma required_size_le:
  "unat (ucast (w * h * 4 :: u32) :: u64) \<le> unat w * unat h * 4"
proof -
  have "unat (w * h * 4) < 2 ^ 64"
    using unat_u32_less [of "w * h * 4"] by simp
  then have "unat (ucast (w * h * 4 :: u32) :: u64) = unat (w * h * 4)"
    by (simp add: unsigned_ucast_eq take_bit_nat_eq_self)
  also have "\<dots> = (unat w * unat h * 4) mod 2 ^ 32"
    by (simp add: unat_word_ariths mod_mult_left_eq mod_mult_right_eq)
  also have "\<dots> \<le> unat w * unat h * 4" by simp
  finally show ?thesis .
qed

text \<open>What one call does to the buffer.\<close>

lemma update_scaler_buffer_cases:
  fixes c create_succeeds bmalloc_result source_w source_h source_fmt
  defines "c' \<equiv> snd (ndi_converter_update_scaler create_succeeds bmalloc_result c
                        source_w source_h source_fmt)"
  shows "target_width c' = target_width c \<and> target_height c' = target_height c \<and>
         ((scaled_buffer c' = scaled_buffer c \<and> scaled_buffer_size c' = scaled_buffer_size c) \<or>
          (scaled_buffer_size c < ucast (target_width c * target_height c * 4) \<and>
           scaled_buffer_size c' = ucast (target_width c * target_height c * 4)))"
  unfolding c'_def by (simp add: ndi_converter_update_scaler_def Let_def)

text \<open>
  Claim C8. For every call of \<^verbatim>\<open>ndi_converter_update_scaler\<close>, whatever the host library
  answers: the capacity of the scaled buffer does not shrink; the buffer pointer or the
  capacity changes only if the capacity was below targetWidth x targetHeight x 4; and if
  the capacity is at least targetWidth x targetHeight x 4, this call and the next one
  (for any source) leave the pointer and the capacity as they were.
\<close>

theorem update_scaler_buffer_grows_only:
  fixes c create_succeeds bmalloc_result source_w source_h source_fmt
    and create_succeeds' bmalloc_result' source_w' source_h' source_fmt'
  defines "c1 \<equiv> snd (ndi_converter_update_scaler create_succeeds bmalloc_result c
                        source_w source_h source_fmt)"
  defines "c2 \<equiv> snd (ndi_converter_update_scaler create_succeeds' bmalloc_result' c1
                        source_w' source_h' source_fmt')"
  defines "required \<equiv> unat (target_width c) * unat (target_height c) * 4"
  shows "scaled_buffer_size c \<le> scaled_buffer_size c1 \<and>
         (scaled_buffer c1 \<noteq> scaled_buffer c \<or> scaled_buffer_size c1 \<noteq> scaled_buffer_size c
            \<longrightarrow> unat (scaled_buffer_size c) < required) \<and>
         (required \<le> unat (scaled_buffer_size c)
            \<longrightarrow> scaled_buffer c1 = scaled_buffer c \<and>
                scaled_buffer_size c1 = scaled_buffer_size c \<and>
                scaled_buffer c2 = scaled_buffer c \<and>
                scaled_buffer_size c2 = scaled_buffer_size c)"
proof -
  have le: "unat (ucast (target_width c * target_height c * 4) :: u64) \<le> required"
    unfolding required_def by (rule required_size_le)
  have first:
    "target_width c1 = target_width c \<and> target_height c1 = target_height c \<and>
     ((scaled_buffer c1 = scaled_buffer c \<and> scaled_buffer_size c1 = scaled_buffer_size c) \<or>
      (scaled_buffer_size c < ucast (target_width c * target_height c * 4) \<and>
       scaled_buffer_size c1 = ucast (target_width c * target_height c * 4)))"
    unfolding c1_def by (rule update_scaler_buffer_cases)
  have second:
    "(scaled_buffer c2 = scaled_buffer c1 \<and> scaled_buffer_size c2 = scaled_buffer_size c1) \<or>
     (scaled_buffer_size c1 < ucast (target_width c1 * target_height c1 * 4) \<and>
      scaled_buffer_size c2 = ucast (target_width c1 * target_height c1 * 4))"
    unfolding c2_def
    using update_scaler_buffer_cases [where c = c1 and create_succeeds = create_succeeds'
        and bmalloc_result = bmalloc_result' and source_w = source_w'
        and source_h = source_h' and source_fmt = source_fmt'] by blast
  have grow: "scaled_buffer_size c \<le> scaled_buffer_size c1"
    using first by auto
  have only: "scaled_buffer c1 \<noteq> scaled_buffer c \<or> scaled_buffer_size c1 \<noteq> scaled_buffer_size c
      \<longrightarrow> unat (scaled_buffer_size c) < required"
    using first le by (auto simp: word_less_nat_alt)
  have keep: "required \<le> unat (scaled_buffer_size c)
      \<longrightarrow> scaled_buffer c1 = scaled_buffer c \<and> scaled_buffer_size c1 = scaled_buffer_size c"
    using first le by (auto simp: word_less_nat_alt)
  have keep2: "required \<le> unat (scaled_buffer_size c)
      \<longrightarrow> scaled_buffer c2 = scaled_buffer c \<and> scaled_buffer_size c2 = scaled_buffer_size c"
  proof
    assume r: "required \<le> unat (scaled_buffer_size c)"
    with keep have same: "scaled_buffer c1 = scaled_buffer c"
      "scaled_buffer_size c1 = scaled_buffer_size c" by auto
    have "\<not> scaled_buffer_size c1 < ucast (target_width c1 * target_height c1 * 4)"
      using first le r same by (auto simp: word_less_nat_alt)
    with second same show "scaled_buffer c2 = scaled_buffer c \<and>
        scaled_buffer_size c2 = scaled_buffer_size c" by auto
  qed
  from grow only keep keep2 show ?thesis by blast
qed

text \<open>
  A converter with target 2560x1440, a buffer of exactly 2560x1440x4 bytes and no scaler:
  the call builds the scaler and keeps the buffer.
\<close>

theorem update_scaler_buffer_grows_only_witness:
  "2560 * 1440 * 4 \<le> unat (14745600 :: u64) \<and>
   scaled_buffer (snd (ndi_converter_update_scaler True 8192
       (retargeted_converter\<lparr> scaler := None, scaled_buffer_size := 14745600 \<rparr>)
       1920 1080 (VIDEO_FORMAT_OTHER 2))) = Some 4096 \<and>
   scaled_buffer_size (snd (ndi_converter_update_scaler True 8192
       (retargeted_converter\<lparr> scaler := None, scaled_buffer_size := 14745600 \<rparr>)
       1920 1080 (VIDEO_FORMAT_OTHER 2))) = 14745600 \<and>
   scaler (snd (ndi_converter_update_scaler True 8192
       (retargeted_converter\<lparr> scaler := None, scaled_buffer_size := 14745600 \<rparr>)
       1920 1080 (VIDEO_FORMAT_OTHER 2))) \<noteq> None"
proof -
  have b: "scaled_buffer retargeted_converter = Some 4096"
    by (simp add: retargeted_converter_def update_defs Let_def scaling_converter_fields)
  show ?thesis
    using update_scaler_buffer_grows_only [where
        c = "retargeted_converter\<lparr> scaler := None, scaled_buffer_size := 14745600 \<rparr>"
        and create_succeeds = True and bmalloc_result = 8192 and source_w = 1920
        and source_h = 1080 and source_fmt = "VIDEO_FORMAT_OTHER 2"
        and create_succeeds' = True and bmalloc_result' = 8192 and source_w' = 1920
        and source_h' = 1080 and source_fmt' = "VIDEO_FORMAT_OTHER 2"]
    by (simp add: retargeted_converter_fields b ndi_converter_update_scaler_def Let_def)
qed


section \<open>The crop rectangle\<close>

lemma half_scale_fields:
  "enable_crop (converter half_scale_filter)"
  "enable_custom_resolution (converter half_scale_filter)"
  "target_width (converter half_scale_filter) = 1920"
  "target_height (converter half_scale_filter) = 1080"
  "crop_left (converter half_scale_filter) = 0"
  "crop_top (converter half_scale_filter) = 0"
  "crop_width (converter half_scale_filter) = 1"
  "crop_height (converter half_scale_filter) = 0"
  "known_width half_scale_filter = 1920"
  "known_height half_scale_filter = 1080"
  by (simp_all add: half_scale_filter_def thin_crop_settings_def ndi_filter_getdefaults_def
      update_defs Let_def mode_defs ndi_converter_get_preset_resolution_def)

lemma fl_round_24_half: "fl_round 24 (1 / 2) = 1 / 2"
  using fl_round_exact [of 1 24 "- 1"] by (simp add: power_int_minus)

lemma fl_round_24_small: "n < 16777216 \<Longrightarrow> fl_round 24 (of_nat n) = of_nat n"
  by (rule fl_round_of_nat) simp

lemma normalize_thin_crop:
  "normalize_crop half_scale_filter 3840 2160 = (0, 0, 0, 0)"
proof -
  have sx: "float_div (float_of_u32 1920) (float_of_u32 3840) = 1 / 2"
    using fl_round_24_small [of 1920] fl_round_24_small [of 3840]
    by (simp add: float_div_def float_of_u32_def fl_round_24_half)
  have sy: "float_div (float_of_u32 1080) (float_of_u32 2160) = 1 / 2"
    using fl_round_24_small [of 1080] fl_round_24_small [of 2160]
    by (simp add: float_div_def float_of_u32_def fl_round_24_half)
  have one: "float_of_u32 1 = 1"
    using fl_round_24_small [of 1] by (simp add: float_of_u32_def)
  have zero: "float_of_i32 0 = 0" "float_of_u32 0 = 0"
    by (simp_all add: float_of_i32_def float_of_u32_def fl_round_def)
  have m0: "float_mul 0 (1 / 2) = 0" by (simp add: float_mul_def fl_round_def)
  have m1: "float_mul 1 (1 / 2) = 1 / 2" by (simp add: float_mul_def fl_round_24_half)
  have "\<lfloor>(1 / 2 :: rat)\<rfloor> = 0" by (rule floor_unique) simp_all
  then have t: "uint32_of_float (1 / 2) = 0" "uint32_of_float 0 = 0" "int32_of_float 0 = 0"
    by (simp_all add: uint32_of_float_def int32_of_float_def trunc_toward_zero_def Let_def)
  show ?thesis
    by (simp add: normalize_crop_def Let_def half_scale_fields sx sy one zero m0 m1 t)
qed

text \<open>
  Claim C10. There is a filter with the crop enabled, a crop width of 1 and a custom
  resolution that scales the source down (3840x2160 rendered at 1920x1080, factor 0.5)
  for which the scaled crop width is truncated to 0, the value that means ``full
  dimension'': the crop rectangle and the region sent are as wide as the whole frame.
\<close>

theorem crop_width_one_becomes_full_width:
  "\<exists>f source_w source_h.
     enable_crop (converter f) \<and> enable_custom_resolution (converter f) \<and>
     0 < target_width (converter f) \<and> 0 < target_height (converter f) \<and>
     known_width f < source_w \<and> known_height f < source_h \<and>
     crop_width (converter f) = 1 \<and>
     fst (snd (snd (normalize_crop f source_w source_h))) = 0 \<and>
     fst (snd (snd (crop_rect f source_w source_h))) = known_width f \<and>
     fst (final_region f (frame_at 0) source_w source_h) = known_width f"
proof -
  have "crop_rect half_scale_filter 3840 2160 = (0, 0, 1920, 1080)"
    by (simp add: crop_rect_def normalize_thin_crop half_scale_fields)
  then have "enable_crop (converter half_scale_filter) \<and>
     enable_custom_resolution (converter half_scale_filter) \<and>
     0 < target_width (converter half_scale_filter) \<and>
     0 < target_height (converter half_scale_filter) \<and>
     known_width half_scale_filter < 3840 \<and> known_height half_scale_filter < 2160 \<and>
     crop_width (converter half_scale_filter) = 1 \<and>
     fst (snd (snd (normalize_crop half_scale_filter 3840 2160))) = 0 \<and>
     fst (snd (snd (crop_rect half_scale_filter 3840 2160))) = known_width half_scale_filter \<and>
     fst (final_region half_scale_filter (frame_at 0) 3840 2160) = known_width half_scale_filter"
    by (simp add: half_scale_fields normalize_thin_crop final_region_def frame_at_def)
  then show ?thesis by blast
qed

lemma wide_crop_fields:
  "enable_crop (converter wide_crop_filter)"
  "\<not> enable_custom_resolution (converter wide_crop_filter)"
  "crop_left (converter wide_crop_filter) = 1"
  "crop_top (converter wide_crop_filter) = 0"
  "crop_width (converter wide_crop_filter) = 4294967295"
  "crop_height (converter wide_crop_filter) = 0"
  "known_width wide_crop_filter = 1920"
  "known_height wide_crop_filter = 1080"
  by (simp_all add: wide_crop_filter_def wide_crop_settings_def ndi_filter_getdefaults_def
      update_defs Let_def mode_defs)

text \<open>
  Claim C7 against the code. With a known size of 1920x1080, a crop left of 1 and a crop
  width of 4294967295, the sum \<^verbatim>\<open>crop_left + crop_width\<close> wraps to 0 in \<^verbatim>\<open>uint32_t\<close>, the
  test against the known width fails, and the width stays 4294967295: the rectangle
  reaches far beyond the frame, and it is the region handed to the sender.
\<close>

theorem crop_rect_exceeds_frame:
  "enable_crop (converter wide_crop_filter) \<and>
   crop_left (converter wide_crop_filter) = 1 \<and>
   crop_width (converter wide_crop_filter) = 4294967295 \<and>
   known_width wide_crop_filter = 1920 \<and> known_height wide_crop_filter = 1080 \<and>
   crop_rect wide_crop_filter 1920 1080 = (1, 0, 4294967295, 1080) \<and>
   uint (known_width wide_crop_filter) < uint (1 :: u32) + uint (4294967295 :: u32) \<and>
   final_region wide_crop_filter (frame_at 0) 1920 1080 = (4294967295, 1080, Some 4100)"
proof -
  have r: "crop_rect wide_crop_filter 1920 1080 = (1, 0, 4294967295, 1080)"
    by (simp add: crop_rect_def normalize_crop_def Let_def wide_crop_fields word_le_def
        word_less_def)
  show ?thesis
    by (simp add: r wide_crop_fields final_region_def frame_at_def)
qed


lemma uint_of_nonneg_sint_32:
  fixes w :: "32 word"
  assumes "0 \<le> sint w"
  shows "uint w = sint w" and "uint w < 2 ^ 31"
proof -
  have "uint w = take_bit 32 (sint w)" using uint_sint [of w] by simp
  moreover have "sint w < 2 ^ 31" using sint_lt [of w] by simp
  ultimately show "uint w = sint w" using assms by (simp add: take_bit_int_eq_self)
  with \<open>sint w < 2 ^ 31\<close> show "uint w < 2 ^ 31" by simp
qed

lemma sint_of_small_uint_32:
  fixes w :: "32 word"
  assumes "uint w < 2 ^ 31"
  shows "sint w = uint w"
proof -
  have "w = word_of_int (uint w)" by simp
  then have "sint w = sint (word_of_int (uint w) :: 32 word)" by simp
  also have "\<dots> = uint w"
  proof (rule sint_of_int_32)
    have "0 \<le> uint w" by simp
    then show "- (2 ^ 31) \<le> uint w" by (rule order_trans [rotated]) simp
    show "uint w < 2 ^ 31" by (rule assms)
  qed
  finally show ?thesis .
qed

text \<open>
  One axis of the clamp of lines 277--297, for a frame dimension and a crop size in the
  range of \<^verbatim>\<open>int32_t\<close>: there the \<^verbatim>\<open>uint32_t\<close> sum cannot wrap.
\<close>

lemma axis_clamp_bounds:
  fixes k p0 s0 :: u32
  defines "s1 \<equiv> (if s0 = 0 then k else s0)"
    and "p1 \<equiv> (if sint p0 < 0 then 0 else p0)"
  defines "p2 \<equiv> (if k \<le> p1 then k - 1 else p1)"
  defines "s2 \<equiv> (if k < p2 + s1 then k - p2 else s1)"
  assumes k0: "0 < k" and k31: "uint k < 2 ^ 31" and s31: "uint s0 \<le> 2 ^ 31"
  shows "0 \<le> sint p2 \<and> uint p2 \<le> uint k - 1 \<and> 1 \<le> uint s2 \<and> uint p2 + uint s2 \<le> uint k"
proof -
  have uk: "1 \<le> uint k" using k0 by (simp add: word_less_def)
  have "0 \<le> sint p1" by (simp add: p1_def)
  then have up1: "uint p1 < 2 ^ 31" by (rule uint_of_nonneg_sint_32(2))
  have uk1: "uint (k - 1) = uint k - 1"
    using uk uint_sub_lem [of 1 k] by simp
  have up2: "uint p2 \<le> uint k - 1"
    using uk1 by (auto simp: p2_def word_le_def)
  then have p31: "uint p2 < 2 ^ 31" using k31 by linarith
  then have sp2: "0 \<le> sint p2" by (simp add: sint_of_small_uint_32)
  have us1: "1 \<le> uint s1" "uint s1 \<le> 2 ^ 31"
  proof -
    have "s1 \<noteq> 0" using k0 by (auto simp: s1_def)
    then have "0 < s1" by (simp add: word_neq_0_conv)
    then show "1 \<le> uint s1" by (simp add: word_less_def)
    show "uint s1 \<le> 2 ^ 31" using k31 s31 by (simp add: s1_def)
  qed
  have "uint p2 + uint s1 < 2 ^ 32" using p31 us1(2) by simp
  then have sum: "uint (p2 + s1) = uint p2 + uint s1"
    using uint_add_lem [of p2 s1] by simp
  have diff: "uint (k - p2) = uint k - uint p2"
    using up2 uint_sub_lem [of p2 k] by simp
  have "1 \<le> uint s2 \<and> uint p2 + uint s2 \<le> uint k"
    using sum diff up2 us1(1) by (auto simp: s2_def word_less_def)
  with sp2 up2 show ?thesis by blast
qed

text \<open>
  Inside that range the rectangle of C7 lies in the frame, whatever the scaling made of
  the settings: left and top in \<open>[0, known - 1]\<close>, width and height at least 1, and
  left + width and top + height within the known size.
\<close>

lemma clamp_crop_in_frame:
  assumes "0 < kw" and "uint kw < 2 ^ 31" and "0 < kh" and "uint kh < 2 ^ 31"
    and "uint w0 \<le> 2 ^ 31" and "uint h0 \<le> 2 ^ 31"
  shows "case clamp_crop kw kh (l0, t0, w0, h0) of
           (l, t, w, h) \<Rightarrow>
             (0 \<le> sint l \<and> uint l \<le> uint kw - 1 \<and> 1 \<le> uint w \<and> uint l + uint w \<le> uint kw) \<and>
             (0 \<le> sint t \<and> uint t \<le> uint kh - 1 \<and> 1 \<le> uint h \<and> uint t + uint h \<le> uint kh)"
  using axis_clamp_bounds [of kw w0 l0, OF assms(1,2,5)]
    axis_clamp_bounds [of kh h0 t0, OF assms(3,4,6)]
  by (simp add: Let_def)

text \<open>The boundary case of C7: a left equal to the known width becomes 1919, with width 1.\<close>

lemma clamp_crop_left_at_width:
  "clamp_crop 1920 1080 (1920, 0, 0, 0) = (1919, 0, 1, 1080)"
  by (simp add: Let_def word_le_def word_less_def)


end
